(* ===== verification/Prelude.thy ===== *)
theory Prelude
  imports Complex_Main "HOL-Library.Word"
begin

text \<open>
  Shared vocabulary of the development: the types that stand for Python's \<^verbatim>\<open>bytes\<close>
  and for wall-clock time, the truthiness test that the walrus conditions of
  \<^verbatim>\<open>src/main.py\<close> apply to a frame, the reference function \<open>keep_last\<close> against
  which the bounded deque is specified, and the theorem collections that the component
  theories fill and hand to \<open>simp\<close> and \<open>auto\<close>.
\<close>

section \<open>Theorem collections\<close>

named_theorems model_defs "definitions of handlers and operations, unfolded together"
named_theorems frame_simps "frame lemmas: fields an operation leaves unchanged"
named_theorems inv_intros "an operation preserves or establishes an invariant"

section \<open>Bytes, time and truthiness\<close>

type_synonym byte = "8 word"
type_synonym bytes = "byte list"
type_synonym seconds = real

text \<open>
  A frame variable of the source holds a \<^verbatim>\<open>bytes\<close> object or \<^verbatim>\<open>None\<close>; a
  condition \<^verbatim>\<open>if x := f():\<close> takes the branch when the value is neither \<^verbatim>\<open>None\<close>
  nor the empty byte string.
\<close>

definition truthy :: "bytes option \<Rightarrow> bool" where
  "truthy v = (case v of None \<Rightarrow> False | Some b \<Rightarrow> b \<noteq> [])"

lemma truthy_simps [simp]:
  "truthy None = False"
  "truthy (Some b) = (b \<noteq> [])"
  by (simp_all add: truthy_def)

lemma truthyE:
  assumes "truthy v"
  obtains b where "v = Some b" and "b \<noteq> []"
  using assms by (cases v) auto

section \<open>The last \<open>n\<close> elements of a list\<close>

definition keep_last :: "nat \<Rightarrow> 'a list \<Rightarrow> 'a list" where
  "keep_last n xs = drop (length xs - n) xs"

lemma keep_last_Nil [simp]: "keep_last n [] = []"
  by (simp add: keep_last_def)

lemma keep_last_0 [simp]: "keep_last 0 xs = []"
  by (simp add: keep_last_def)

lemma length_keep_last [simp]: "length (keep_last n xs) = min n (length xs)"
  by (simp add: keep_last_def)

lemma keep_last_id [simp]: "length xs \<le> n \<Longrightarrow> keep_last n xs = xs"
  by (simp add: keep_last_def)

lemma keep_last_suffix: "take (length xs - n) xs @ keep_last n xs = xs"
  by (simp add: keep_last_def)

lemma set_keep_last: "set (keep_last n xs) \<subseteq> set xs"
  by (simp add: keep_last_def set_drop_subset)

lemma keep_last_append_short:
  "length ys \<le> n \<Longrightarrow> keep_last n (xs @ ys) = keep_last (n - length ys) xs @ ys"
  by (simp add: keep_last_def)

lemma keep_last_append_long:
  "n \<le> length ys \<Longrightarrow> keep_last n (xs @ ys) = keep_last n ys"
  by (simp add: keep_last_def)

lemma keep_last_keep_last [simp]:
  "keep_last n (keep_last m xs) = keep_last (min n m) xs"
proof -
  have "length xs - (length xs - m + n) + (length xs - m) = length xs - min n m"
    by arith
  then show ?thesis
    by (simp add: keep_last_def)
qed

lemma keep_last_append_absorb [simp]:
  "keep_last n (keep_last n xs @ ys) = keep_last n (xs @ ys)"
proof (cases "length ys \<le> n")
  case True
  then show ?thesis by (simp add: keep_last_append_short)
next
  case False
  then show ?thesis by (simp add: keep_last_append_long)
qed

lemma keep_last_snoc:
  "keep_last (Suc n) (xs @ [x]) = keep_last n xs @ [x]"
  by (simp add: keep_last_append_short)

section \<open>Lists of outcomes\<close>

lemma sorted_wrt_snoc:
  "sorted_wrt R (xs @ [x]) \<longleftrightarrow> sorted_wrt R xs \<and> (\<forall>y \<in> set xs. R y x)"
  by (auto simp: sorted_wrt_append)

lemma sorted_wrt_map_filter:
  "sorted_wrt R (map f (filter Q xs)) \<longleftrightarrow>
   sorted_wrt (\<lambda>a b. Q a \<longrightarrow> Q b \<longrightarrow> R (f a) (f b)) xs"
  by (induction xs) auto

lemma sorted_wrt_map_filter_nth:
  assumes "sorted_wrt R (map f (filter Q xs))"
    and "j < k" and "k < length xs" and "Q (xs ! j)" and "Q (xs ! k)"
  shows "R (f (xs ! j)) (f (xs ! k))"
proof -
  from assms(1) have "sorted_wrt (\<lambda>a b. Q a \<longrightarrow> Q b \<longrightarrow> R (f a) (f b)) xs"
    by (simp only: sorted_wrt_map_filter)
  with assms(2-) show ?thesis
    by (auto simp: sorted_wrt_iff_nth_less)
qed

lemma replicate_5: "replicate 5 x = [x, x, x, x, x]"
  by (simp add: eval_nat_numeral)

end
