(* ===== verification/Config.thy ===== *)
theory Config
  imports Prelude
begin

text \<open>
  The global configuration of \<^verbatim>\<open>src/main.py\<close> (lines 18 to 23): sample rate, channel
  count, frame duration, the derived number of samples per frame and the capacity shared
  by the capture queue and the playback deque. The frame period in seconds, which the
  send loop computes as \<^verbatim>\<open>FRAME_MS / 1000\<close>, is named \<open>frame_period\<close>.
\<close>

definition SAMPLE_RATE :: nat where
  "SAMPLE_RATE = 24000"

definition CHANNELS :: nat where
  "CHANNELS = 1"

definition FRAME_MS :: nat where
  "FRAME_MS = 60"

definition CHUNK :: nat where
  "CHUNK = SAMPLE_RATE * FRAME_MS div 1000"

definition MAX_QUEUE_SIZE :: nat where
  "MAX_QUEUE_SIZE = 30"

definition frame_period :: seconds where
  "frame_period = real FRAME_MS / 1000"

lemmas config_defs =
  SAMPLE_RATE_def CHANNELS_def FRAME_MS_def CHUNK_def MAX_QUEUE_SIZE_def frame_period_def

declare config_defs [model_defs]

lemma CHUNK_value: "CHUNK = 1440"
  by (simp add: config_defs)

lemma frame_period_value: "frame_period = 3 / 50"
  by (simp add: config_defs)

lemma frame_period_pos [simp]: "0 < frame_period"
  by (simp add: config_defs)

lemma frame_period_nonneg [simp]: "0 \<le> frame_period"
  by (simp add: frame_period_value)

lemma MAX_QUEUE_SIZE_pos [simp]: "0 < MAX_QUEUE_SIZE"
  by (simp add: config_defs)

lemma chunk_duration: "real CHUNK / real SAMPLE_RATE = frame_period"
  by (simp add: config_defs)

end
