(* ===== verification/Containers.thy ===== *)
theory Containers
  imports Prelude
begin

text \<open>
  The two standard-library containers that \<^verbatim>\<open>AudioIO.__init__\<close> creates
  (\<^verbatim>\<open>src/main.py\<close>, lines 73 and 74) and the operations the program calls on them:
  \<^item> \<^verbatim>\<open>queue.Queue(maxsize=n)\<close> with \<^verbatim>\<open>put\<close> (blocking, line 101) and
    \<^verbatim>\<open>get_nowait\<close> (line 107);
  \<^item> \<^verbatim>\<open>collections.deque(maxlen=n)\<close> with \<^verbatim>\<open>extend\<close> (line 114) and
    \<^verbatim>\<open>clear\<close> (line 215).

  A call of \<^verbatim>\<open>put\<close> that would wait for a free slot is the value \<open>None\<close>: the caller
  does not return until a consumer has taken an element. The last section states the
  drop-on-overflow queue that the design document asks for and relates both containers
  to it.
\<close>

section \<open>queue.Queue\<close>

record 'a py_queue =
  q_items :: "'a list"
  q_maxsize :: nat

datatype queue_error = Empty

definition Queue :: "nat \<Rightarrow> 'a py_queue" where
  "Queue n = \<lparr>q_items = [], q_maxsize = n\<rparr>"

definition q_full :: "'a py_queue \<Rightarrow> bool" where
  "q_full q \<longleftrightarrow> 0 < q_maxsize q \<and> q_maxsize q \<le> length (q_items q)"

definition put :: "'a py_queue \<Rightarrow> 'a \<Rightarrow> 'a py_queue option" where
  "put q x = (if q_full q then None else Some (q\<lparr>q_items := q_items q @ [x]\<rparr>))"

definition get_nowait :: "'a py_queue \<Rightarrow> queue_error + 'a \<times> 'a py_queue" where
  "get_nowait q =
     (case q_items q of
        [] \<Rightarrow> Inl Empty
      | x # xs \<Rightarrow> Inr (x, q\<lparr>q_items := xs\<rparr>))"

definition q_ok :: "'a py_queue \<Rightarrow> bool" where
  "q_ok q \<longleftrightarrow> 0 < q_maxsize q \<and> length (q_items q) \<le> q_maxsize q"

section \<open>collections.deque with a maximal length\<close>

record 'a deque =
  d_items :: "'a list"
  d_maxlen :: nat

definition Deque :: "nat \<Rightarrow> 'a deque" where
  "Deque n = \<lparr>d_items = [], d_maxlen = n\<rparr>"

definition deque_append :: "'a deque \<Rightarrow> 'a \<Rightarrow> 'a deque" where
  "deque_append d x =
     (let ys = d_items d @ [x]
      in d\<lparr>d_items := (if d_maxlen d < length ys then tl ys else ys)\<rparr>)"

definition deque_extend :: "'a deque \<Rightarrow> 'a list \<Rightarrow> 'a deque" where
  "deque_extend d xs = foldl deque_append d xs"

definition deque_clear :: "'a deque \<Rightarrow> 'a deque" where
  "deque_clear d = d\<lparr>d_items := []\<rparr>"

definition d_ok :: "'a deque \<Rightarrow> bool" where
  "d_ok d \<longleftrightarrow> length (d_items d) \<le> d_maxlen d"

section \<open>The drop-on-overflow queue of the design\<close>

record 'a bfq =
  frames :: "'a list"
  capacity :: nat
  dropped :: nat

definition offer :: "'a bfq \<Rightarrow> 'a \<Rightarrow> 'a bfq" where
  "offer b x =
     (if length (frames b) < capacity b then b\<lparr>frames := frames b @ [x]\<rparr>
      else b\<lparr>dropped := Suc (dropped b)\<rparr>)"

definition take_frame :: "'a bfq \<Rightarrow> 'a option \<times> 'a bfq" where
  "take_frame b =
     (case frames b of
        [] \<Rightarrow> (None, b)
      | x # xs \<Rightarrow> (Some x, b\<lparr>frames := xs\<rparr>))"

definition offer_all :: "'a bfq \<Rightarrow> 'a list \<Rightarrow> 'a bfq" where
  "offer_all b xs = foldl offer b xs"

definition bfq_of :: "'a py_queue \<Rightarrow> nat \<Rightarrow> 'a bfq" where
  "bfq_of q n = \<lparr>frames = q_items q, capacity = q_maxsize q, dropped = n\<rparr>"

lemmas queue_defs = Queue_def q_full_def put_def get_nowait_def q_ok_def
lemmas deque_defs = Deque_def deque_append_def deque_extend_def deque_clear_def d_ok_def
lemmas bfq_defs = offer_def take_frame_def offer_all_def bfq_of_def

declare queue_defs [model_defs] deque_defs [model_defs]

section \<open>Facts about the queue\<close>

lemma q_ok_Queue [inv_intros]: "0 < n \<Longrightarrow> q_ok (Queue n)"
  by (simp add: queue_defs)

lemma put_None_iff: "put q x = None \<longleftrightarrow> q_full q"
  by (simp add: put_def)

lemma put_Some_iff:
  "put q x = Some q' \<longleftrightarrow> \<not> q_full q \<and> q' = q\<lparr>q_items := q_items q @ [x]\<rparr>"
  by (auto simp: put_def)

lemma put_items: "put q x = Some q' \<Longrightarrow> q_items q' = q_items q @ [x]"
  by (auto simp: put_Some_iff)

lemma put_maxsize [frame_simps]: "put q x = Some q' \<Longrightarrow> q_maxsize q' = q_maxsize q"
  by (auto simp: put_Some_iff)

lemma q_ok_put [inv_intros]: "q_ok q \<Longrightarrow> put q x = Some q' \<Longrightarrow> q_ok q'"
  by (auto simp: queue_defs split: if_splits)

lemma get_nowait_Empty_iff: "get_nowait q = Inl e \<longleftrightarrow> q_items q = []"
  by (cases e) (auto simp: get_nowait_def split: list.splits)

lemma get_nowait_Inr_iff:
  "get_nowait q = Inr (x, q') \<longleftrightarrow>
     (\<exists>xs. q_items q = x # xs \<and> q' = q\<lparr>q_items := xs\<rparr>)"
  by (cases "q_items q") (auto simp: get_nowait_def)

lemma get_nowait_maxsize [frame_simps]:
  "get_nowait q = Inr (x, q') \<Longrightarrow> q_maxsize q' = q_maxsize q"
  by (auto simp: get_nowait_Inr_iff)

lemma q_ok_get_nowait [inv_intros]: "q_ok q \<Longrightarrow> get_nowait q = Inr (x, q') \<Longrightarrow> q_ok q'"
  by (auto simp: get_nowait_Inr_iff q_ok_def)

lemma get_nowait_unblocks: "q_ok q \<Longrightarrow> get_nowait q = Inr (x, q') \<Longrightarrow> \<not> q_full q'"
  by (auto simp: get_nowait_Inr_iff q_ok_def q_full_def)

lemma q_full_length: "q_ok q \<Longrightarrow> q_full q \<longleftrightarrow> length (q_items q) = q_maxsize q"
  by (auto simp: q_ok_def q_full_def)

section \<open>Facts about the deque\<close>

lemma d_ok_Deque [inv_intros]: "d_ok (Deque n)"
  by (simp add: deque_defs)

lemma deque_append_maxlen [simp]: "d_maxlen (deque_append d x) = d_maxlen d"
  by (simp add: deque_append_def Let_def)

lemma deque_extend_maxlen [simp]: "d_maxlen (deque_extend d xs) = d_maxlen d"
  by (induction xs arbitrary: d) (simp_all add: deque_extend_def)

lemma deque_append_items:
  assumes "d_ok d"
  shows "d_items (deque_append d x) = keep_last (d_maxlen d) (d_items d @ [x])"
proof (cases "d_maxlen d < Suc (length (d_items d))")
  case True
  with assms have len: "length (d_items d) = d_maxlen d"
    by (simp add: d_ok_def)
  have "tl ys = drop (Suc 0) ys" for ys :: "'a list"
    by (simp add: drop_Suc)
  with True len show ?thesis
    by (simp add: deque_append_def keep_last_def Let_def del: drop_append)
next
  case False
  then show ?thesis
    by (simp add: deque_append_def Let_def)
qed

lemma d_ok_deque_append [inv_intros]: "d_ok d \<Longrightarrow> d_ok (deque_append d x)"
  by (simp add: d_ok_def [of "deque_append d x"] deque_append_items)

lemma d_ok_deque_extend [inv_intros]: "d_ok d \<Longrightarrow> d_ok (deque_extend d xs)"
  by (induction xs arbitrary: d) (simp_all add: deque_extend_def d_ok_deque_append)

lemma deque_extend_snoc: "deque_extend d (xs @ [x]) = deque_append (deque_extend d xs) x"
  by (simp add: deque_extend_def)

lemma d_ok_deque_clear [inv_intros]: "d_ok (deque_clear d)"
  by (simp add: deque_defs)

lemma deque_clear_items [simp]: "d_items (deque_clear d) = []"
  by (simp add: deque_clear_def)

lemma deque_clear_maxlen [simp]: "d_maxlen (deque_clear d) = d_maxlen d"
  by (simp add: deque_clear_def)

section \<open>Facts about the design's queue\<close>

lemma offer_capacity [simp]: "capacity (offer b x) = capacity b"
  by (simp add: offer_def)

lemma offer_all_capacity [simp]: "capacity (offer_all b xs) = capacity b"
  by (induction xs arbitrary: b) (simp_all add: offer_all_def)

lemma offer_all_Cons: "offer_all b (x # xs) = offer_all (offer b x) xs"
  by (simp add: offer_all_def)

lemma offer_all_Nil [simp]: "offer_all b [] = b"
  by (simp add: offer_all_def)

lemma offer_all_frames:
  "frames (offer_all b xs) = frames b @ take (capacity b - length (frames b)) xs"
proof (induction xs arbitrary: b)
  case Nil
  then show ?case by simp
next
  case (Cons x xs)
  show ?case
  proof (cases "length (frames b) < capacity b")
    case True
    then have "capacity b - length (frames b) = Suc (capacity b - Suc (length (frames b)))"
      by simp
    with True show ?thesis
      by (simp add: offer_all_Cons Cons.IH offer_def)
  next
    case False
    then show ?thesis
      by (simp add: offer_all_Cons Cons.IH offer_def)
  qed
qed

lemma offer_all_dropped:
  "dropped (offer_all b xs) = dropped b + (length xs - (capacity b - length (frames b)))"
proof (induction xs arbitrary: b)
  case Nil
  then show ?case by simp
next
  case (Cons x xs)
  show ?case
    by (cases "length (frames b) < capacity b")
       (auto simp: offer_all_Cons Cons.IH offer_def)
qed

section \<open>The containers against their specifications\<close>

lemma deque_extend_items:
  "d_ok d \<Longrightarrow> d_items (deque_extend d xs) = keep_last (d_maxlen d) (d_items d @ xs)"
proof (induction xs rule: rev_induct)
  case Nil
  then show ?case by (simp add: deque_extend_def d_ok_def)
next
  case (snoc x xs)
  then have "d_ok (deque_extend d xs)" by (simp add: d_ok_deque_extend)
  then have "d_items (deque_extend d (xs @ [x])) =
      keep_last (d_maxlen d) (d_items (deque_extend d xs) @ [x])"
    by (simp add: deque_extend_snoc deque_append_items)
  with snoc show ?case by simp
qed

text \<open>
  \<^verbatim>\<open>deque.extend\<close> on a deque with a maximal length, implemented as one append
  with eviction per element, leaves exactly the last \<open>maxlen\<close> elements of the old
  contents followed by the new ones: the newest elements are kept and the oldest are
  the ones evicted.
\<close>

lemma deque_extend_keep_last:
  assumes "length (d_items d) \<le> d_maxlen d"
  shows "d_items (deque_extend d xs) = drop (length (d_items d @ xs) - d_maxlen d) (d_items d @ xs)"
  using assms deque_extend_items [of d xs] by (simp add: d_ok_def keep_last_def)

text \<open>
  The capture queue against the drop-on-overflow queue of the design: a \<^verbatim>\<open>put\<close>
  that returns has done what \<open>offer\<close> does; where \<^verbatim>\<open>put\<close> blocks, the queue is
  full and \<open>offer\<close> would have dropped the frame and counted it.
\<close>

lemma put_refines_offer:
  assumes "q_ok q"
  shows "case put q x of
           Some q' \<Rightarrow> bfq_of q' n = offer (bfq_of q n) x
         | None \<Rightarrow> offer (bfq_of q n) x = bfq_of q (Suc n)"
  using assms by (auto simp: queue_defs bfq_defs)

text \<open>
  The design's queue, offered \<open>N\<close> frames when empty, retains the first
  \<open>capacity\<close> of them in their order and counts the other \<open>N - capacity\<close> as dropped;
  taking from it afterwards returns the oldest retained frame.
\<close>

lemma offer_all_retains_oldest:
  "frames (offer_all \<lparr>frames = [], capacity = c, dropped = 0\<rparr> xs) = take c xs \<and>
   dropped (offer_all \<lparr>frames = [], capacity = c, dropped = 0\<rparr> xs) = length xs - c \<and>
   fst (take_frame (offer_all \<lparr>frames = [], capacity = c, dropped = 0\<rparr> xs)) =
     (if c = 0 \<or> xs = [] then None else Some (hd xs))"
  by (cases xs; cases c) (simp_all add: offer_all_frames offer_all_dropped take_frame_def)

end
