(* ===== verification/Codec.thy ===== *)
theory Codec
  imports Config
begin

text \<open>
  The class \<^verbatim>\<open>OpusCodec\<close> of \<^verbatim>\<open>src/main.py\<close> (lines 33 to 67). The Opus library is
  an external collaborator: its encoder and decoder objects are the two function fields
  of the record \<open>opus_codec\<close>, each taking the data and the frame size and returning the
  converted bytes or \<^verbatim>\<open>OpusError\<close>. The methods \<open>encode\<close> and \<open>decode\<close> call them
  with the frame size \<open>CHUNK\<close> and turn the error into \<^verbatim>\<open>None\<close>, as the two
  \<^verbatim>\<open>except\<close> clauses do. The constructor \<open>OpusCodec_init\<close> asks the library, the record
  \<open>opus_lib\<close>, for both objects and fails with the first error. \<open>codec_framed\<close> is the
  framing contract the engine relies on; \<open>loopback_codec\<close> is a codec that meets it and
  \<open>good_lib\<close> a library that never fails, used where a theorem is applied to a concrete
  codec.
\<close>

datatype opus_error = OpusError

record opus_codec =
  encoder :: "bytes \<Rightarrow> nat \<Rightarrow> opus_error + bytes"
  decoder :: "bytes \<Rightarrow> nat \<Rightarrow> opus_error + bytes"

definition encode :: "opus_codec \<Rightarrow> bytes \<Rightarrow> bytes option" where
  "encode c pcm =
     (case encoder c pcm CHUNK of
        Inr opus \<Rightarrow> Some opus
      | Inl e \<Rightarrow> None)"

definition decode :: "opus_codec \<Rightarrow> bytes \<Rightarrow> bytes option" where
  "decode c opus =
     (case decoder c opus CHUNK of
        Inr pcm \<Rightarrow> Some pcm
      | Inl e \<Rightarrow> None)"

text \<open>
  The constructor (lines 35 to 51) makes four calls into the library, in this order:
  it creates the encoder, sets its bit rate, sets its signal type and creates the
  decoder. Each may raise \<^verbatim>\<open>OpusError\<close>, which the constructor logs and raises again, so
  the first failure is the outcome and the later calls are not made. The answers of the
  library are the fields of \<open>opus_lib\<close>; the two settings tune the encoder inside the
  library and leave the functions of the model as they are.
\<close>

type_synonym coder = "bytes \<Rightarrow> nat \<Rightarrow> opus_error + bytes"

record opus_lib =
  Encoder :: "nat \<Rightarrow> nat \<Rightarrow> opus_error + coder"
  set_bitrate :: "nat \<Rightarrow> opus_error option"
  set_signal :: "opus_error option"
  Decoder :: "nat \<Rightarrow> nat \<Rightarrow> opus_error + coder"

definition OpusCodec_init :: "opus_lib \<Rightarrow> opus_error + opus_codec" where
  "OpusCodec_init lib =
     (case Encoder lib SAMPLE_RATE CHANNELS of
        Inl e \<Rightarrow> Inl e
      | Inr enc \<Rightarrow>
          (case set_bitrate lib 24000 of
             Some e \<Rightarrow> Inl e
           | None \<Rightarrow>
               (case set_signal lib of
                  Some e \<Rightarrow> Inl e
                | None \<Rightarrow>
                    (case Decoder lib SAMPLE_RATE CHANNELS of
                       Inl e \<Rightarrow> Inl e
                     | Inr dec \<Rightarrow> Inr \<lparr>encoder = enc, decoder = dec\<rparr>))))"

definition good_lib :: "opus_codec \<Rightarrow> opus_lib" where
  "good_lib c =
     \<lparr>Encoder = (\<lambda>rate ch. Inr (encoder c)),
      set_bitrate = (\<lambda>b. None),
      set_signal = None,
      Decoder = (\<lambda>rate ch. Inr (decoder c))\<rparr>"

text \<open>
  One frame of 16-bit mono samples occupies \<open>frame_bytes\<close> bytes. The contract: the
  decoder, when it succeeds, returns exactly one frame, and the encoder accepts every
  block of one frame.
\<close>

definition frame_bytes :: nat where
  "frame_bytes = 2 * CHANNELS * CHUNK"

definition codec_framed :: "opus_codec \<Rightarrow> bool" where
  "codec_framed c \<longleftrightarrow>
     (\<forall>opus pcm. decoder c opus CHUNK = Inr pcm \<longrightarrow> length pcm = frame_bytes) \<and>
     (\<forall>pcm. length pcm = frame_bytes \<longrightarrow> (\<exists>opus. encoder c pcm CHUNK = Inr opus))"

definition loopback_codec :: opus_codec where
  "loopback_codec =
     \<lparr>encoder = (\<lambda>pcm n. if length pcm = 2 * n then Inr pcm else Inl OpusError),
      decoder = (\<lambda>opus n. if length opus = 2 * n then Inr opus else Inl OpusError)\<rparr>"

lemmas codec_defs = encode_def decode_def

declare codec_defs [model_defs] loopback_codec_def [model_defs]
  OpusCodec_init_def [model_defs] good_lib_def [model_defs]

section \<open>Construction\<close>

lemma OpusCodec_init_Inr_iff:
  "OpusCodec_init lib = Inr c \<longleftrightarrow>
     Encoder lib SAMPLE_RATE CHANNELS = Inr (encoder c) \<and> set_bitrate lib 24000 = None \<and>
     set_signal lib = None \<and> Decoder lib SAMPLE_RATE CHANNELS = Inr (decoder c)"
  by (cases c) (auto simp: OpusCodec_init_def split: sum.splits option.splits)

lemma OpusCodec_init_good [simp]: "OpusCodec_init (good_lib c) = Inr c"
  by (simp add: OpusCodec_init_Inr_iff good_lib_def)

section \<open>Encoding and decoding\<close>

lemma frame_bytes_value: "frame_bytes = 2880"
  by (simp add: frame_bytes_def config_defs)

lemma encode_Some_iff: "encode c pcm = Some opus \<longleftrightarrow> encoder c pcm CHUNK = Inr opus"
  by (simp add: encode_def split: sum.splits)

lemma encode_None_iff: "encode c pcm = None \<longleftrightarrow> (\<exists>e. encoder c pcm CHUNK = Inl e)"
  by (simp add: encode_def split: sum.splits)

lemma decode_Some_iff: "decode c opus = Some pcm \<longleftrightarrow> decoder c opus CHUNK = Inr pcm"
  by (simp add: decode_def split: sum.splits)

lemma decode_None_iff: "decode c opus = None \<longleftrightarrow> (\<exists>e. decoder c opus CHUNK = Inl e)"
  by (simp add: decode_def split: sum.splits)

lemma decode_framed:
  "codec_framed c \<Longrightarrow> decode c opus = Some pcm \<Longrightarrow> length pcm = frame_bytes"
  by (auto simp: codec_framed_def decode_Some_iff)

lemma encode_framed:
  "codec_framed c \<Longrightarrow> length pcm = frame_bytes \<Longrightarrow> \<exists>opus. encode c pcm = Some opus"
  by (auto simp: codec_framed_def encode_Some_iff)

lemma decode_framed_truthy:
  "codec_framed c \<Longrightarrow> decode c opus = Some pcm \<Longrightarrow> truthy (Some pcm)"
  by (auto dest!: decode_framed simp: frame_bytes_value)

lemma codec_framed_loopback: "codec_framed loopback_codec"
  by (simp add: codec_framed_def loopback_codec_def frame_bytes_def config_defs)

lemma encode_loopback:
  "encode loopback_codec pcm = (if length pcm = frame_bytes then Some pcm else None)"
  by (simp add: encode_def loopback_codec_def frame_bytes_def config_defs)

lemma decode_loopback:
  "decode loopback_codec opus = (if length opus = frame_bytes then Some opus else None)"
  by (simp add: decode_def loopback_codec_def frame_bytes_def config_defs)

end
