(* ===== verification/AudioIO.thy ===== *)
theory AudioIO
  imports Config Containers
begin

text \<open>
  The class \<^verbatim>\<open>AudioIO\<close> of \<^verbatim>\<open>src/main.py\<close> (lines 69 to 127): the capture queue
  that the microphone callback fills, the playback deque, the two device streams and
  the operations on them. The audio device is an external collaborator. What the model
  keeps of it: the state of each stream (running, stopped, closed), whether the library
  was terminated, and \<open>speaker\<close>, the blocks the output stream has accepted, in order.
  \<open>release_calls\<close> counts the calls of \<^verbatim>\<open>release\<close>; it is not a field of the
  source and is written by \<open>release\<close> only. Whether the device accepts a block is an
  input of \<open>play_output\<close>; a stream that is not running refuses every block with
  \<^verbatim>\<open>OSError\<close>. Stopping and closing a stream never fail in the model, also on a
  stream that is closed already. Construction can fail: \<open>AudioIO_init\<close> asks the device
  library, the record \<open>portaudio\<close>, to initialise and to open the two streams, and
  \<open>AudioIO_ready\<close> is the object it returns when all three calls succeed. The last
  section is the round trip of blocks through the capture queue.
\<close>

section \<open>State\<close>

datatype audio_error = OSError

datatype stream_state = Running | Stopped | Closed

datatype pa_flag = paContinue

record audio_io =
  input_queue :: "bytes py_queue"
  output_buffer :: "byte deque"
  input_stream :: stream_state
  output_stream :: stream_state
  pa_terminated :: bool
  speaker :: "bytes list"
  release_calls :: nat

section \<open>Operations\<close>

text \<open>
  Construction (lines 71 to 97) asks the device library three things: to initialise
  (\<^verbatim>\<open>pyaudio.PyAudio()\<close>), to open the input stream and to open the output stream. None
  of the three calls is inside a \<^verbatim>\<open>try\<close>, so the first \<^verbatim>\<open>OSError\<close> leaves the
  constructor. The answers are the fields of \<open>portaudio\<close>. A stream opened with a callback
  starts at once, so an opened stream is running. A failed construction returns the
  error and what exists of the object at that moment: nothing when the library did not
  initialise, the object with the streams opened so far otherwise.
\<close>

datatype direction = Input | Output

record portaudio =
  PyAudio :: "audio_error option"
  pa_open :: "direction \<Rightarrow> nat \<Rightarrow> nat \<Rightarrow> nat \<Rightarrow> audio_error option"

definition init_streams :: "portaudio \<Rightarrow> audio_io \<Rightarrow> audio_error \<times> audio_io + audio_io" where
  "init_streams pa a =
     (case pa_open pa Input CHANNELS SAMPLE_RATE CHUNK of
        Some e \<Rightarrow> Inl (e, a)
      | None \<Rightarrow>
          (let a1 = a\<lparr>input_stream := Running\<rparr>
           in case pa_open pa Output CHANNELS SAMPLE_RATE CHUNK of
                Some e \<Rightarrow> Inl (e, a1)
              | None \<Rightarrow> Inr (a1\<lparr>output_stream := Running\<rparr>)))"

definition audio_fresh :: audio_io where
  "audio_fresh =
     \<lparr>input_queue = Queue MAX_QUEUE_SIZE,
      output_buffer = Deque MAX_QUEUE_SIZE,
      input_stream = Closed,
      output_stream = Closed,
      pa_terminated = False,
      speaker = [],
      release_calls = 0\<rparr>"

definition AudioIO_init :: "portaudio \<Rightarrow> audio_error \<times> audio_io option + audio_io" where
  "AudioIO_init pa =
     (case PyAudio pa of
        Some e \<Rightarrow> Inl (e, None)
      | None \<Rightarrow>
          (case init_streams pa audio_fresh of
             Inl (e, a) \<Rightarrow> Inl (e, Some a)
           | Inr a \<Rightarrow> Inr a))"

text \<open>
  \<open>AudioIO_ready\<close> is the object a construction without failure returns; \<open>good_device\<close>
  is the device that never fails.
\<close>

definition AudioIO_ready :: audio_io where
  "AudioIO_ready = audio_fresh\<lparr>input_stream := Running, output_stream := Running\<rparr>"

definition good_device :: portaudio where
  "good_device = \<lparr>PyAudio = None, pa_open = (\<lambda>d ch rate n. None)\<rparr>"

definition input_callback :: "audio_io \<Rightarrow> bytes \<Rightarrow> (audio_io \<times> bytes \<times> pa_flag) option" where
  "input_callback a in_data =
     (case put (input_queue a) in_data of
        None \<Rightarrow> None
      | Some q \<Rightarrow> Some (a\<lparr>input_queue := q\<rparr>, in_data, paContinue))"

definition get_input_frame :: "audio_io \<Rightarrow> bytes option \<times> audio_io" where
  "get_input_frame a =
     (case get_nowait (input_queue a) of
        Inr (frame, q) \<Rightarrow> (Some frame, a\<lparr>input_queue := q\<rparr>)
      | Inl Empty \<Rightarrow> (None, a))"

definition stream_write :: "stream_state \<Rightarrow> audio_error option \<Rightarrow> audio_error option" where
  "stream_write st dev = (if st = Running then dev else Some OSError)"

definition play_output :: "audio_io \<Rightarrow> bytes option \<Rightarrow> audio_error option \<Rightarrow> audio_io" where
  "play_output a pcm_data dev =
     (case pcm_data of
        None \<Rightarrow> a
      | Some pcm \<Rightarrow>
          if pcm = [] then a
          else
            let a1 = a\<lparr>output_buffer := deque_extend (output_buffer a) pcm\<rparr>
            in case stream_write (output_stream a1) dev of
                 None \<Rightarrow> a1\<lparr>speaker := speaker a1 @ [pcm]\<rparr>
               | Some OSError \<Rightarrow> a1)"

definition stop_stream :: "stream_state \<Rightarrow> stream_state" where
  "stop_stream st = (if st = Running then Stopped else st)"

definition close_stream :: "stream_state \<Rightarrow> stream_state" where
  "close_stream st = Closed"

definition release :: "audio_io \<Rightarrow> audio_io" where
  "release a =
     (let a1 = a\<lparr>input_stream := stop_stream (input_stream a)\<rparr>;
          a2 = a1\<lparr>output_stream := stop_stream (output_stream a1)\<rparr>;
          a3 = a2\<lparr>input_stream := close_stream (input_stream a2)\<rparr>;
          a4 = a3\<lparr>output_stream := close_stream (output_stream a3)\<rparr>
      in a4\<lparr>pa_terminated := True, release_calls := Suc (release_calls a4)\<rparr>)"

text \<open>
  The two ends of the capture queue, iterated: \<open>capture_all\<close> is the microphone
  delivering one block per callback, and is \<open>None\<close> when a callback blocks;
  \<open>take_frames\<close> is a consumer that calls \<^verbatim>\<open>get_input_frame\<close> up to \<open>n\<close> times and stops
  at the first \<^verbatim>\<open>None\<close>.
\<close>

fun capture_all :: "audio_io \<Rightarrow> bytes list \<Rightarrow> audio_io option" where
  "capture_all a [] = Some a"
| "capture_all a (x # xs) =
     (case input_callback a x of
        None \<Rightarrow> None
      | Some (a', r) \<Rightarrow> capture_all a' xs)"

fun take_frames :: "nat \<Rightarrow> audio_io \<Rightarrow> bytes list \<times> audio_io" where
  "take_frames 0 a = ([], a)"
| "take_frames (Suc n) a =
     (case get_input_frame a of
        (None, a') \<Rightarrow> ([], a')
      | (Some x, a') \<Rightarrow> (let (xs, a'') = take_frames n a' in (x # xs, a'')))"

section \<open>Invariant\<close>

definition audio_ok :: "audio_io \<Rightarrow> bool" where
  "audio_ok a \<longleftrightarrow>
     q_ok (input_queue a) \<and> q_maxsize (input_queue a) = MAX_QUEUE_SIZE \<and>
     d_ok (output_buffer a) \<and> d_maxlen (output_buffer a) = MAX_QUEUE_SIZE"

lemmas audio_defs =
  init_streams_def audio_fresh_def AudioIO_init_def AudioIO_ready_def good_device_def
  input_callback_def get_input_frame_def
  stream_write_def play_output_def stop_stream_def close_stream_def release_def

declare audio_defs [model_defs]

section \<open>Construction and release\<close>

lemma audio_ok_init [inv_intros]: "audio_ok AudioIO_ready"
  by (simp add: audio_ok_def AudioIO_ready_def audio_fresh_def queue_defs deque_defs)

lemma AudioIO_ready_fields [simp]:
  "q_items (input_queue AudioIO_ready) = []"
  "d_items (output_buffer AudioIO_ready) = []"
  "input_stream AudioIO_ready = Running"
  "output_stream AudioIO_ready = Running"
  "speaker AudioIO_ready = []"
  "release_calls AudioIO_ready = 0"
  "pa_terminated AudioIO_ready = False"
  by (simp_all add: AudioIO_ready_def audio_fresh_def Queue_def Deque_def)

lemma AudioIO_init_Inr_iff:
  "AudioIO_init pa = Inr a \<longleftrightarrow>
     PyAudio pa = None \<and> pa_open pa Input CHANNELS SAMPLE_RATE CHUNK = None \<and>
     pa_open pa Output CHANNELS SAMPLE_RATE CHUNK = None \<and> a = AudioIO_ready"
  by (auto simp: AudioIO_init_def AudioIO_ready_def init_streams_def Let_def
      split: option.splits)

lemma AudioIO_init_good [simp]: "AudioIO_init good_device = Inr AudioIO_ready"
  by (simp add: AudioIO_init_Inr_iff good_device_def)

lemma release_fields [simp]:
  "input_stream (release a) = Closed"
  "output_stream (release a) = Closed"
  "pa_terminated (release a) = True"
  "release_calls (release a) = Suc (release_calls a)"
  "input_queue (release a) = input_queue a"
  "output_buffer (release a) = output_buffer a"
  "speaker (release a) = speaker a"
  by (simp_all add: release_def close_stream_def Let_def)

lemma audio_ok_release [inv_intros]: "audio_ok a \<Longrightarrow> audio_ok (release a)"
  by (simp add: audio_ok_def)

lemma release_release:
  "release (release a) = release a\<lparr>release_calls := Suc (Suc (release_calls a))\<rparr>"
  by (simp add: release_def close_stream_def stop_stream_def Let_def)

section \<open>The capture queue\<close>

lemma input_callback_None_iff:
  "input_callback a in_data = None \<longleftrightarrow> q_full (input_queue a)"
  by (simp add: input_callback_def put_def)

lemma input_callback_Some_iff:
  "input_callback a in_data = Some r \<longleftrightarrow>
     \<not> q_full (input_queue a) \<and>
     r = (a\<lparr>input_queue := (input_queue a)\<lparr>q_items := q_items (input_queue a) @ [in_data]\<rparr>\<rparr>,
          in_data, paContinue)"
  by (auto simp: input_callback_def put_def)

lemma audio_ok_input_callback [inv_intros]:
  "audio_ok a \<Longrightarrow> input_callback a in_data = Some (a', r) \<Longrightarrow> audio_ok a'"
  by (auto simp: input_callback_def audio_ok_def split: option.splits
      intro: inv_intros dest: put_maxsize)

lemma get_input_frame_empty:
  "q_items (input_queue a) = [] \<Longrightarrow> get_input_frame a = (None, a)"
  by (simp add: get_input_frame_def get_nowait_def)

lemma get_input_frame_Cons:
  "q_items (input_queue a) = x # xs \<Longrightarrow>
   get_input_frame a = (Some x, a\<lparr>input_queue := (input_queue a)\<lparr>q_items := xs\<rparr>\<rparr>)"
  by (simp add: get_input_frame_def get_nowait_def)

lemma get_input_frame_cases:
  obtains (empty) "q_items (input_queue a) = []" "get_input_frame a = (None, a)"
  | (frame) x xs where "q_items (input_queue a) = x # xs"
      "get_input_frame a = (Some x, a\<lparr>input_queue := (input_queue a)\<lparr>q_items := xs\<rparr>\<rparr>)"
  by (cases "q_items (input_queue a)")
     (auto simp: get_input_frame_empty get_input_frame_Cons)

lemma audio_ok_get_input_frame [inv_intros]:
  "audio_ok a \<Longrightarrow> audio_ok (snd (get_input_frame a))"
  by (cases a rule: get_input_frame_cases) (auto simp: audio_ok_def q_ok_def)

lemma get_input_frame_frame [frame_simps]:
  "output_buffer (snd (get_input_frame a)) = output_buffer a"
  "speaker (snd (get_input_frame a)) = speaker a"
  "input_stream (snd (get_input_frame a)) = input_stream a"
  "output_stream (snd (get_input_frame a)) = output_stream a"
  "release_calls (snd (get_input_frame a)) = release_calls a"
  "pa_terminated (snd (get_input_frame a)) = pa_terminated a"
  by (cases a rule: get_input_frame_cases; simp)+

lemma capture_all_fits:
  assumes "audio_ok a" and "length (q_items (input_queue a)) + length xs \<le> MAX_QUEUE_SIZE"
  shows "capture_all a xs =
           Some (a\<lparr>input_queue := (input_queue a)\<lparr>q_items := q_items (input_queue a) @ xs\<rparr>\<rparr>)"
  using assms
proof (induction xs arbitrary: a)
  case (Cons x xs)
  let ?a = "a\<lparr>input_queue := (input_queue a)\<lparr>q_items := q_items (input_queue a) @ [x]\<rparr>\<rparr>"
  from Cons.prems have cb: "input_callback a x = Some (?a, x, paContinue)"
    by (simp add: input_callback_def put_def q_full_def audio_ok_def)
  with Cons.prems have "audio_ok ?a"
    by (simp add: audio_ok_def q_ok_def)
  from Cons.IH [OF this] Cons.prems(2) cb show ?case
    by simp
qed simp

lemma capture_all_overflow:
  assumes "audio_ok a" and "MAX_QUEUE_SIZE < length (q_items (input_queue a)) + length xs"
  shows "capture_all a xs = None"
  using assms
proof (induction xs arbitrary: a)
  case Nil
  then show ?case by (simp add: audio_ok_def q_ok_def)
next
  case (Cons x xs)
  show ?case
  proof (cases "input_callback a x")
    case (Some r)
    let ?a = "a\<lparr>input_queue := (input_queue a)\<lparr>q_items := q_items (input_queue a) @ [x]\<rparr>\<rparr>"
    from Some have r: "r = (?a, x, paContinue)"
      by (simp add: input_callback_Some_iff)
    from Cons.prems(1) Some r have "audio_ok ?a"
      by (auto intro: audio_ok_input_callback)
    from Cons.IH [OF this] Cons.prems(2) Some r show ?thesis
      by simp
  qed simp
qed

lemma take_frames_take:
  "n \<le> length (q_items (input_queue a)) \<Longrightarrow>
   take_frames n a =
     (take n (q_items (input_queue a)),
      a\<lparr>input_queue := (input_queue a)\<lparr>q_items := drop n (q_items (input_queue a))\<rparr>\<rparr>)"
proof (induction n arbitrary: a)
  case (Suc n)
  then obtain x xs where items: "q_items (input_queue a) = x # xs"
    by (cases "q_items (input_queue a)") auto
  with Suc.prems Suc.IH [of "a\<lparr>input_queue := (input_queue a)\<lparr>q_items := xs\<rparr>\<rparr>"]
  show ?case
    by (simp add: get_input_frame_Cons)
qed simp

section \<open>Playback\<close>

lemma play_output_falsy [simp]:
  "\<not> truthy pcm_data \<Longrightarrow> play_output a pcm_data dev = a"
  by (cases pcm_data) (simp_all add: play_output_def)

lemma play_output_buffer:
  "truthy (Some pcm) \<Longrightarrow>
   output_buffer (play_output a (Some pcm) dev) = deque_extend (output_buffer a) pcm"
  by (simp add: play_output_def Let_def split: option.splits audio_error.splits)

lemma play_output_speaker:
  "truthy (Some pcm) \<Longrightarrow>
   speaker (play_output a (Some pcm) dev) =
     (if output_stream a = Running \<and> dev = None then speaker a @ [pcm] else speaker a)"
  by (auto simp: play_output_def stream_write_def Let_def
      split: option.splits audio_error.splits)

lemma play_output_frame [frame_simps]:
  "input_queue (play_output a pcm_data dev) = input_queue a"
  "input_stream (play_output a pcm_data dev) = input_stream a"
  "output_stream (play_output a pcm_data dev) = output_stream a"
  "release_calls (play_output a pcm_data dev) = release_calls a"
  "pa_terminated (play_output a pcm_data dev) = pa_terminated a"
  by (simp_all add: play_output_def Let_def split: option.splits audio_error.splits)

lemma audio_ok_play_output [inv_intros]:
  "audio_ok a \<Longrightarrow> audio_ok (play_output a pcm_data dev)"
proof (cases "truthy pcm_data")
  case True
  then obtain pcm where "pcm_data = Some pcm" "pcm \<noteq> []"
    by (rule truthyE)
  moreover assume "audio_ok a"
  ultimately show ?thesis
    by (simp add: audio_ok_def play_output_buffer frame_simps d_ok_deque_extend)
next
  case False
  moreover assume "audio_ok a"
  ultimately show ?thesis by simp
qed

section \<open>Overflow\<close>

text \<open>
  C11. The microphone callback does not return while the capture queue holds
  \<open>MAX_QUEUE_SIZE\<close> frames: \<^verbatim>\<open>put\<close> is the blocking variant, so a full queue
  stalls the capture thread instead of dropping the frame.
\<close>

theorem capture_blocks_when_full:
  assumes "audio_ok a"
  shows "input_callback a in_data = None \<longleftrightarrow> length (q_items (input_queue a)) = MAX_QUEUE_SIZE"
  using assms by (simp add: input_callback_None_iff audio_ok_def q_full_length)

theorem capture_blocks_when_full_witness:
  "audio_ok (AudioIO_ready\<lparr>input_queue := \<lparr>q_items = replicate 30 [], q_maxsize = 30\<rparr>\<rparr>) \<and>
   input_callback (AudioIO_ready\<lparr>input_queue := \<lparr>q_items = replicate 30 [], q_maxsize = 30\<rparr>\<rparr>) [7] = None"
  using capture_blocks_when_full
    [of "AudioIO_ready\<lparr>input_queue := \<lparr>q_items = replicate 30 [], q_maxsize = 30\<rparr>\<rparr>" "[7]"]
    audio_ok_init
  by (simp add: audio_ok_def q_ok_def MAX_QUEUE_SIZE_def)

text \<open>
  C40. \<^verbatim>\<open>play_output\<close> extends the playback deque with the bytes of the block, not
  with the block: afterwards the deque holds the last \<open>MAX_QUEUE_SIZE\<close> bytes of what
  it held followed by the block, whatever the device answered.
\<close>

theorem playback_buffer_keeps_last_bytes:
  assumes "audio_ok a" and "pcm \<noteq> []"
  shows "d_items (output_buffer (play_output a (Some pcm) dev)) =
           keep_last MAX_QUEUE_SIZE (d_items (output_buffer a) @ pcm)"
  using assms by (simp add: play_output_buffer deque_extend_items audio_ok_def)

theorem playback_buffer_keeps_last_bytes_witness:
  "audio_ok AudioIO_ready \<and> [1, 2, 3 :: byte] \<noteq> [] \<and>
   d_items (output_buffer (play_output AudioIO_ready (Some [1, 2, 3]) (Some OSError))) = [1, 2, 3]"
  using playback_buffer_keeps_last_bytes [of AudioIO_ready "[1, 2, 3]" "Some OSError"] audio_ok_init
  by (simp add: MAX_QUEUE_SIZE_def)

section \<open>Round trip through the capture queue\<close>

text \<open>
  C27. What the microphone puts into an empty capture queue comes out unchanged and in
  the same order: if at most \<^verbatim>\<open>MAX_QUEUE_SIZE\<close> blocks are delivered, no callback blocks,
  and as many calls of \<^verbatim>\<open>get_input_frame\<close> return exactly these blocks and leave the
  audio object as it was before the first callback. With more blocks and no consumer a
  callback blocks.
\<close>

theorem capture_roundtrip:
  assumes "audio_ok a" and "q_items (input_queue a) = []"
  shows "if length xs \<le> MAX_QUEUE_SIZE
         then \<exists>a'. capture_all a xs = Some a' \<and> take_frames (length xs) a' = (xs, a)
         else capture_all a xs = None"
  using assms capture_all_fits [of a xs] capture_all_overflow [of a xs]
  by (simp add: take_frames_take)

theorem capture_roundtrip_witness:
  "audio_ok AudioIO_ready \<and> q_items (input_queue AudioIO_ready) = [] \<and>
   (\<exists>a'. capture_all AudioIO_ready [[1], [2, 3]] = Some a' \<and>
         take_frames 2 a' = ([[1], [2, 3]], AudioIO_ready))"
  using capture_roundtrip [of AudioIO_ready "[[1], [2, 3]]"] audio_ok_init
  by (simp add: MAX_QUEUE_SIZE_def numeral_2_eq_2 del: capture_all.simps take_frames.simps)

end
