(* ===== verification/Json.thy ===== *)
theory Json
  imports Prelude
begin

text \<open>
  The values that \<^verbatim>\<open>json.loads\<close> returns and the two dictionary accesses that
  \<^verbatim>\<open>_handle_control\<close> applies to them (\<^verbatim>\<open>src/main.py\<close>, lines 211 to 214):
  \<^verbatim>\<open>data.get(key)\<close> and \<^verbatim>\<open>data[key]\<close>. A dictionary is the list of its items,
  looked up with \<open>map_of\<close>. Every exception of the Python operations is a value of
  \<open>py_error\<close>. The parser itself is a library function; the handlers take it as a
  parameter of type \<open>json_parser\<close>, where \<open>None\<close> stands for
  \<^verbatim>\<open>JSONDecodeError\<close>.
\<close>

datatype json =
    JNull
  | JBool bool
  | JInt int
  | JFloat real
  | JStr string
  | JArr "json list"
  | JObj "(string \<times> json) list"

datatype py_error =
    KeyError string
  | AttributeError string
  | TypeError

type_synonym json_parser = "string \<Rightarrow> json option"

definition py_get :: "json \<Rightarrow> string \<Rightarrow> py_error + json option" where
  "py_get data key =
     (case data of
        JObj items \<Rightarrow> Inr (map_of items key)
      | _ \<Rightarrow> Inl (AttributeError ''get''))"

definition py_getitem :: "json \<Rightarrow> string \<Rightarrow> py_error + json" where
  "py_getitem data key =
     (case data of
        JObj items \<Rightarrow>
          (case map_of items key of
             None \<Rightarrow> Inl (KeyError key)
           | Some v \<Rightarrow> Inr v)
      | _ \<Rightarrow> Inl TypeError)"

definition is_dict :: "json \<Rightarrow> bool" where
  "is_dict data = (case data of JObj items \<Rightarrow> True | _ \<Rightarrow> False)"

lemmas json_defs = py_get_def py_getitem_def is_dict_def

lemma py_get_JObj [simp]: "py_get (JObj items) key = Inr (map_of items key)"
  by (simp add: py_get_def)

lemma py_getitem_JObj [simp]:
  "py_getitem (JObj items) key =
     (case map_of items key of None \<Rightarrow> Inl (KeyError key) | Some v \<Rightarrow> Inr v)"
  by (simp add: py_getitem_def)

lemma is_dict_JObj [simp]: "is_dict (JObj items)"
  by (simp add: is_dict_def)

lemma is_dictE:
  assumes "is_dict data"
  obtains items where "data = JObj items"
  using assms by (cases data) (simp_all add: is_dict_def)

lemma py_get_Inr_iff: "(\<exists>v. py_get data key = Inr v) \<longleftrightarrow> is_dict data"
  by (cases data) (simp_all add: json_defs)

lemma py_get_Inl_iff: "py_get data key = Inl e \<longleftrightarrow> \<not> is_dict data \<and> e = AttributeError ''get''"
  by (cases data) (auto simp: json_defs)

lemma py_getitem_KeyError_iff:
  "is_dict data \<Longrightarrow> py_getitem data key = Inl e \<longleftrightarrow> py_get data key = Inr None \<and> e = KeyError key"
  by (erule is_dictE) (auto split: option.splits)

lemma py_getitem_get:
  "py_getitem data key = Inr v \<Longrightarrow> py_get data key = Inr (Some v)"
  by (cases data) (auto simp: json_defs split: option.splits)

end
