(* ===== verification/Client.thy ===== *)
theory Client
  imports Codec AudioIO Json
begin

text \<open>
  The class \<^verbatim>\<open>AudioClient\<close> of \<^verbatim>\<open>src/main.py\<close> (lines 129 to 235) without its
  threads: construction with its two ways to fail, the inbound dispatcher (\<^verbatim>\<open>_on_message\<close>,
  \<^verbatim>\<open>_handle_audio\<close>, \<^verbatim>\<open>_handle_control\<close>), the error and close callbacks and
  \<^verbatim>\<open>_cleanup\<close>. The transport is an external collaborator: of the
  \<^verbatim>\<open>WebSocketApp\<close> object the model keeps the URL, the headers and the number of
  \<^verbatim>\<open>close\<close> calls. A handler that lets an exception escape returns \<open>Inl\<close> of
  it; the client is then as it was when the exception was raised. Log output is not
  modelled: a caught exception is a branch that only returns.
\<close>

section \<open>Transport values\<close>

datatype opcode = OPCODE_BINARY | OPCODE_PING

datatype payload = Bytes bytes | Str string

datatype ws_error = WebSocketException

record websocket_app =
  url :: string
  header :: "(string \<times> string) list"
  close_calls :: nat

definition WS_URL :: string where
  "WS_URL = ''ws://127.0.0.1:8000/v1''"

fun py_str :: "nat \<Rightarrow> string" where
  "py_str n =
     (if n < 10 then [char_of (48 + n)]
      else py_str (n div 10) @ [char_of (48 + n mod 10)])"

declare py_str.simps [simp del]

definition ws_close :: "websocket_app \<Rightarrow> websocket_app" where
  "ws_close w = w\<lparr>close_calls := Suc (close_calls w)\<rparr>"

section \<open>The client\<close>

record audio_client =
  ws :: "websocket_app option"
  codec :: opus_codec
  audio :: audio_io
  is_running :: bool
  sync_timer :: nat
  ping_interval :: nat

definition init_websocket :: "audio_client \<Rightarrow> audio_client" where
  "init_websocket c =
     c\<lparr>ws := Some
         \<lparr>url = WS_URL,
          header = [(''Protocol-Version'', ''2.0''),
                    (''Audio-Config'', py_str SAMPLE_RATE @ ''/'' @ py_str CHANNELS)],
          close_calls = 0\<rparr>\<rparr>"

text \<open>
  The constructor (lines 131 to 138) builds the codec and then the audio object; neither
  call is inside a \<^verbatim>\<open>try\<close>, so a failure of either leaves the constructor with that
  exception, before the transport object exists. \<open>AudioClient_with\<close> is the rest of the
  constructor, which cannot fail. A failed construction returns the error and what the
  audio construction left behind. \<open>AudioClient_ready\<close> is the client a construction
  without failure returns for the codec \<open>oc\<close>.
\<close>

datatype init_error = CodecFailed opus_error | DeviceFailed audio_error

definition AudioClient_with :: "opus_codec \<Rightarrow> audio_io \<Rightarrow> audio_client" where
  "AudioClient_with oc a =
     (let c = \<lparr>ws = None, codec = oc, audio = a, is_running = False,
               sync_timer = 0, ping_interval = 0\<rparr>;
          c1 = init_websocket c
      in c1\<lparr>sync_timer := 0, ping_interval := 25\<rparr>)"

definition AudioClient_init ::
  "opus_lib \<Rightarrow> portaudio \<Rightarrow> init_error \<times> audio_io option + audio_client" where
  "AudioClient_init lib pa =
     (case OpusCodec_init lib of
        Inl e \<Rightarrow> Inl (CodecFailed e, None)
      | Inr oc \<Rightarrow>
          (case AudioIO_init pa of
             Inl (e, left) \<Rightarrow> Inl (DeviceFailed e, left)
           | Inr a \<Rightarrow> Inr (AudioClient_with oc a)))"

definition AudioClient_ready :: "opus_codec \<Rightarrow> audio_client" where
  "AudioClient_ready oc = AudioClient_with oc AudioIO_ready"

section \<open>Inbound dispatcher\<close>

definition handle_audio :: "audio_client \<Rightarrow> bytes \<Rightarrow> audio_error option \<Rightarrow> audio_client" where
  "handle_audio c opus_frame dev =
     (let pcm_frame = decode (codec c) opus_frame
      in if truthy pcm_frame then c\<lparr>audio := play_output (audio c) pcm_frame dev\<rparr>
         else c)"

definition clear_playback :: "audio_client \<Rightarrow> audio_client" where
  "clear_playback c =
     c\<lparr>audio := (audio c)\<lparr>output_buffer := deque_clear (output_buffer (audio c))\<rparr>\<rparr>"

definition handle_control :: "json_parser \<Rightarrow> audio_client \<Rightarrow> string \<Rightarrow> py_error + audio_client" where
  "handle_control loads c message =
     (case loads message of
        None \<Rightarrow> Inr c
      | Some data \<Rightarrow>
          (case py_get data ''type'' of
             Inl e \<Rightarrow> Inl e
           | Inr ty \<Rightarrow>
               if ty = Some (JStr ''tts'') then
                 (case py_getitem data ''state'' of
                    Inl e \<Rightarrow> Inl e
                  | Inr st \<Rightarrow>
                      if st = JStr ''stop''
                      then Inr (clear_playback c)
                      else Inr c)
               else Inr c))"

definition on_message ::
  "json_parser \<Rightarrow> audio_client \<Rightarrow> payload \<Rightarrow> audio_error option \<Rightarrow> py_error + audio_client" where
  "on_message loads c message dev =
     (case message of
        Bytes b \<Rightarrow> Inr (handle_audio c b dev)
      | Str s \<Rightarrow> handle_control loads c s)"

section \<open>Error, close and cleanup\<close>

definition on_error :: "audio_client \<Rightarrow> audio_client" where
  "on_error c = c\<lparr>is_running := False\<rparr>"

definition cleanup :: "audio_client \<Rightarrow> audio_client" where
  "cleanup c =
     (let c1 = c\<lparr>audio := release (audio c)\<rparr>
      in case ws c1 of
           Some w \<Rightarrow> c1\<lparr>ws := Some (ws_close w)\<rparr>
         | None \<Rightarrow> c1)"

definition on_close :: "audio_client \<Rightarrow> audio_client" where
  "on_close c = cleanup (c\<lparr>is_running := False\<rparr>)"

section \<open>A run of the dispatcher\<close>

text \<open>
  The transport delivers messages one at a time, each with the answer the audio device
  will give if the message leads to a write. An exception that escapes the callback is
  caught by the transport's dispatch loop, which goes on with the next message.
\<close>

fun dispatch_all :: "json_parser \<Rightarrow> audio_client \<Rightarrow> (payload \<times> audio_error option) list \<Rightarrow> audio_client" where
  "dispatch_all loads c [] = c"
| "dispatch_all loads c ((m, dev) # ms) =
     (case on_message loads c m dev of
        Inl e \<Rightarrow> dispatch_all loads c ms
      | Inr c' \<Rightarrow> dispatch_all loads c' ms)"

text \<open>The blocks a run should hand to the device: every accepted, decodable frame.\<close>

fun played_of :: "opus_codec \<Rightarrow> (payload \<times> audio_error option) list \<Rightarrow> bytes list" where
  "played_of oc [] = []"
| "played_of oc ((Bytes b, dev) # ms) =
     (case decode oc b of
        Some pcm \<Rightarrow> (if pcm \<noteq> [] \<and> dev = None then pcm # played_of oc ms else played_of oc ms)
      | None \<Rightarrow> played_of oc ms)"
| "played_of oc ((Str s, dev) # ms) = played_of oc ms"

section \<open>Invariant\<close>

definition client_ok :: "audio_client \<Rightarrow> bool" where
  "client_ok c \<longleftrightarrow> audio_ok (audio c) \<and> ws c \<noteq> None"

lemmas client_defs =
  init_websocket_def AudioClient_with_def AudioClient_init_def AudioClient_ready_def
  handle_audio_def clear_playback_def handle_control_def
  on_message_def on_error_def cleanup_def on_close_def ws_close_def

declare client_defs [model_defs]

section \<open>Construction\<close>

lemma py_str_digit: "n < 10 \<Longrightarrow> py_str n = [char_of (48 + n)]"
  by (simp add: py_str.simps)

lemma py_str_step: "10 \<le> n \<Longrightarrow> py_str n = py_str (n div 10) @ [char_of (48 + n mod 10)]"
  by (subst py_str.simps) simp

lemma py_str_nonempty: "py_str n \<noteq> []"
  by (subst py_str.simps) simp

lemma audio_config_header: "py_str SAMPLE_RATE @ CHR ''/'' # py_str CHANNELS = ''24000/1''"
  by (simp add: config_defs py_str_step py_str_digit char_of_def bit_0)

lemma AudioClient_ready_fields [simp]:
  "is_running (AudioClient_ready oc) = False"
  "codec (AudioClient_ready oc) = oc"
  "audio (AudioClient_ready oc) = AudioIO_ready"
  "ping_interval (AudioClient_ready oc) = 25"
  "sync_timer (AudioClient_ready oc) = 0"
  by (simp_all add: AudioClient_ready_def AudioClient_with_def init_websocket_def Let_def)

lemma AudioClient_ready_ws:
  "ws (AudioClient_ready oc) =
     Some \<lparr>url = WS_URL,
           header = [(''Protocol-Version'', ''2.0''), (''Audio-Config'', ''24000/1'')],
           close_calls = 0\<rparr>"
  by (simp add: AudioClient_ready_def AudioClient_with_def init_websocket_def Let_def
      audio_config_header)

lemma client_ok_init [inv_intros]: "client_ok (AudioClient_ready oc)"
  by (simp add: client_ok_def audio_ok_init AudioClient_ready_ws)

lemma AudioClient_init_Inr_iff:
  "AudioClient_init lib pa = Inr c \<longleftrightarrow>
     (\<exists>oc. OpusCodec_init lib = Inr oc \<and> AudioIO_init pa = Inr AudioIO_ready \<and>
           c = AudioClient_ready oc)"
  by (cases "AudioIO_init pa")
     (auto simp: AudioClient_init_def AudioClient_ready_def split: sum.splits
        dest: AudioIO_init_Inr_iff [THEN iffD1])

lemma AudioClient_init_good [simp]:
  "AudioClient_init (good_lib oc) good_device = Inr (AudioClient_ready oc)"
  by (simp add: AudioClient_init_Inr_iff)

section \<open>Audio messages\<close>

lemma handle_audio_undecodable [simp]:
  "\<not> truthy (decode (codec c) b) \<Longrightarrow> handle_audio c b dev = c"
  by (simp add: handle_audio_def)

lemma handle_audio_decoded:
  "decode (codec c) b = Some pcm \<Longrightarrow> pcm \<noteq> [] \<Longrightarrow>
   handle_audio c b dev = c\<lparr>audio := play_output (audio c) (Some pcm) dev\<rparr>"
  by (simp add: handle_audio_def)

lemma handle_audio_frame [frame_simps]:
  "is_running (handle_audio c b dev) = is_running c"
  "ws (handle_audio c b dev) = ws c"
  "codec (handle_audio c b dev) = codec c"
  "ping_interval (handle_audio c b dev) = ping_interval c"
  "input_queue (audio (handle_audio c b dev)) = input_queue (audio c)"
  "output_stream (audio (handle_audio c b dev)) = output_stream (audio c)"
  "input_stream (audio (handle_audio c b dev)) = input_stream (audio c)"
  "release_calls (audio (handle_audio c b dev)) = release_calls (audio c)"
  by (simp_all add: handle_audio_def Let_def frame_simps)

lemma handle_audio_speaker:
  "output_stream (audio c) = Running \<Longrightarrow>
   speaker (audio (handle_audio c b dev)) = speaker (audio c) @ played_of (codec c) [(Bytes b, dev)]"
  by (cases "decode (codec c) b")
     (auto simp: handle_audio_def Let_def play_output_speaker)

lemma handle_audio_buffer:
  "decode (codec c) b = Some pcm \<Longrightarrow> pcm \<noteq> [] \<Longrightarrow>
   output_buffer (audio (handle_audio c b dev)) = deque_extend (output_buffer (audio c)) pcm"
  by (simp add: handle_audio_decoded play_output_buffer)

lemma client_ok_handle_audio [inv_intros]:
  "client_ok c \<Longrightarrow> client_ok (handle_audio c b dev)"
  by (simp add: client_ok_def handle_audio_def Let_def audio_ok_play_output)

section \<open>Control messages\<close>

lemma clear_playback_fields [simp]:
  "d_items (output_buffer (audio (clear_playback c))) = []"
  "d_maxlen (output_buffer (audio (clear_playback c))) = d_maxlen (output_buffer (audio c))"
  "speaker (audio (clear_playback c)) = speaker (audio c)"
  "input_queue (audio (clear_playback c)) = input_queue (audio c)"
  "output_stream (audio (clear_playback c)) = output_stream (audio c)"
  "input_stream (audio (clear_playback c)) = input_stream (audio c)"
  "release_calls (audio (clear_playback c)) = release_calls (audio c)"
  "is_running (clear_playback c) = is_running c"
  "ws (clear_playback c) = ws c"
  "codec (clear_playback c) = codec c"
  "ping_interval (clear_playback c) = ping_interval c"
  by (simp_all add: clear_playback_def)

lemma client_ok_clear_playback [inv_intros]: "client_ok c \<Longrightarrow> client_ok (clear_playback c)"
  by (simp add: client_ok_def audio_ok_def d_ok_def)

lemma handle_control_unparsable [simp]:
  "loads message = None \<Longrightarrow> handle_control loads c message = Inr c"
  by (simp add: handle_control_def)

lemma handle_control_not_dict:
  "loads message = Some data \<Longrightarrow> \<not> is_dict data \<Longrightarrow>
   handle_control loads c message = Inl (AttributeError ''get'')"
  by (cases data) (simp_all add: handle_control_def json_defs)

lemma handle_control_dict:
  "loads message = Some (JObj items) \<Longrightarrow>
   handle_control loads c message =
     (if map_of items ''type'' = Some (JStr ''tts'') then
        (case map_of items ''state'' of
           None \<Rightarrow> Inl (KeyError ''state'')
         | Some st \<Rightarrow> if st = JStr ''stop'' then Inr (clear_playback c) else Inr c)
      else Inr c)"
  by (simp add: handle_control_def split: option.splits)

lemma handle_control_result:
  "handle_control loads c message = Inr c' \<Longrightarrow> c' = c \<or> c' = clear_playback c"
  by (auto simp: handle_control_def split: option.splits sum.splits if_splits)

lemma handle_control_error:
  "handle_control loads c message = Inl e \<Longrightarrow>
   e = AttributeError ''get'' \<or> e = KeyError ''state''"
  by (auto simp: handle_control_def json_defs
      split: option.splits sum.splits if_splits json.splits)

lemma client_ok_handle_control [inv_intros]:
  "client_ok c \<Longrightarrow> handle_control loads c message = Inr c' \<Longrightarrow> client_ok c'"
  by (auto dest!: handle_control_result intro: inv_intros)

section \<open>The dispatcher\<close>

lemma on_message_Bytes [simp]: "on_message loads c (Bytes b) dev = Inr (handle_audio c b dev)"
  by (simp add: on_message_def)

lemma on_message_Str [simp]: "on_message loads c (Str s) dev = handle_control loads c s"
  by (simp add: on_message_def)

lemma on_message_cases:
  assumes "on_message loads c m dev = Inr c'"
  obtains (audio) b where "m = Bytes b" "c' = handle_audio c b dev"
  | (ignored) s where "m = Str s" "c' = c"
  | (stop) s where "m = Str s" "c' = clear_playback c"
  using assms by (cases m) (auto dest: handle_control_result)

lemma client_ok_on_message [inv_intros]:
  "client_ok c \<Longrightarrow> on_message loads c m dev = Inr c' \<Longrightarrow> client_ok c'"
  by (erule on_message_cases) (auto intro: inv_intros)

lemma on_message_frame:
  assumes "on_message loads c m dev = Inr c'"
  shows "is_running c' = is_running c" and "ws c' = ws c" and "codec c' = codec c"
    and "input_queue (audio c') = input_queue (audio c)"
    and "output_stream (audio c') = output_stream (audio c)"
    and "release_calls (audio c') = release_calls (audio c)"
  using assms by (auto elim!: on_message_cases simp: frame_simps)

lemma on_message_speaker:
  assumes "on_message loads c m dev = Inr c'" and "output_stream (audio c) = Running"
  shows "speaker (audio c') = speaker (audio c) @ played_of (codec c) [(m, dev)]"
  using assms by (auto elim!: on_message_cases simp: handle_audio_speaker)

section \<open>Error, close and cleanup\<close>

lemma on_error_fields [simp]:
  "is_running (on_error c) = False"
  "audio (on_error c) = audio c"
  "ws (on_error c) = ws c"
  "codec (on_error c) = codec c"
  "ping_interval (on_error c) = ping_interval c"
  by (simp_all add: on_error_def)

lemma cleanup_fields [simp]:
  "audio (cleanup c) = release (audio c)"
  "is_running (cleanup c) = is_running c"
  "codec (cleanup c) = codec c"
  "ping_interval (cleanup c) = ping_interval c"
  "ws (cleanup c) = map_option ws_close (ws c)"
  by (simp_all add: cleanup_def Let_def split: option.splits)

lemma on_close_fields [simp]:
  "audio (on_close c) = release (audio c)"
  "is_running (on_close c) = False"
  "codec (on_close c) = codec c"
  "ping_interval (on_close c) = ping_interval c"
  "ws (on_close c) = map_option ws_close (ws c)"
  by (simp_all add: on_close_def)

lemma client_ok_on_error [inv_intros]: "client_ok c \<Longrightarrow> client_ok (on_error c)"
  by (simp add: client_ok_def)

lemma client_ok_cleanup [inv_intros]: "client_ok c \<Longrightarrow> client_ok (cleanup c)"
  by (auto simp: client_ok_def audio_ok_release)

lemma client_ok_on_close [inv_intros]: "client_ok c \<Longrightarrow> client_ok (on_close c)"
  by (auto simp: client_ok_def audio_ok_release)

section \<open>Runs of the dispatcher\<close>

lemma dispatch_all_frame:
  "codec (dispatch_all loads c ms) = codec c"
  "output_stream (audio (dispatch_all loads c ms)) = output_stream (audio c)"
  "is_running (dispatch_all loads c ms) = is_running c"
  "input_queue (audio (dispatch_all loads c ms)) = input_queue (audio c)"
  by (induction loads c ms rule: dispatch_all.induct)
     (auto split: sum.splits dest: on_message_frame)

lemma played_of_Cons: "played_of oc ((m, dev) # ms) = played_of oc [(m, dev)] @ played_of oc ms"
  by (cases m) (auto split: option.splits)

lemma dispatch_all_speaker:
  "output_stream (audio c) = Running \<Longrightarrow>
   speaker (audio (dispatch_all loads c ms)) = speaker (audio c) @ played_of (codec c) ms"
proof (induction loads c ms rule: dispatch_all.induct)
  case (1 loads c)
  then show ?case by simp
next
  case (2 loads c m dev ms)
  show ?case
  proof (cases "on_message loads c m dev")
    case (Inl e)
    then obtain s where "m = Str s" by (cases m) simp_all
    with Inl 2 show ?thesis by simp
  next
    case (Inr c')
    from on_message_speaker [OF Inr "2.prems"] on_message_frame [OF Inr] "2.prems"
    have "speaker (audio c') = speaker (audio c) @ played_of (codec c) [(m, dev)]"
      and "codec c' = codec c" and "output_stream (audio c') = Running"
      by simp_all
    then show ?thesis
      using Inr "2.IH"(2) [OF Inr] played_of_Cons [of "codec c" m dev ms] by simp
  qed
qed

lemma client_ok_dispatch_all: "client_ok c \<Longrightarrow> client_ok (dispatch_all loads c ms)"
  by (induction loads c ms rule: dispatch_all.induct)
     (auto split: sum.splits intro: inv_intros)

lemma played_of_framed:
  "codec_framed oc \<Longrightarrow> pcm \<in> set (played_of oc ms) \<Longrightarrow> length pcm = frame_bytes"
  by (induction oc ms rule: played_of.induct)
     (auto split: option.splits if_splits dest: decode_framed)

text \<open>
  C6. Inbound audio is played in arrival order: after any sequence of messages, the
  blocks the output device has accepted are exactly the decodable frames among them,
  in the order of their arrival; control messages, undecodable frames and frames the
  device refused leave no block behind.
\<close>

theorem dispatch_plays_in_arrival_order:
  "speaker (audio (dispatch_all loads (AudioClient_ready oc) ms)) = played_of oc ms"
  using dispatch_all_speaker [of "AudioClient_ready oc" loads ms] by simp

text \<open>
  C8. A control message that parses to a dictionary with \<^verbatim>\<open>type\<close> \<^verbatim>\<open>tts\<close> and
  \<^verbatim>\<open>state\<close> \<^verbatim>\<open>stop\<close> empties the playback deque and changes nothing else: the
  blocks already handed to the device and the capture queue are as before.
\<close>

theorem stop_clears_playback:
  assumes "loads message = Some (JObj items)"
    and "map_of items ''type'' = Some (JStr ''tts'')"
    and "map_of items ''state'' = Some (JStr ''stop'')"
  shows "\<exists>c'. handle_control loads c message = Inr c' \<and>
           d_items (output_buffer (audio c')) = [] \<and>
           speaker (audio c') = speaker (audio c) \<and>
           input_queue (audio c') = input_queue (audio c) \<and>
           is_running c' = is_running c"
  using assms by (simp add: handle_control_dict)

theorem stop_clears_playback_witness:
  "(\<lambda>s. Some (JObj [(''type'', JStr ''tts''), (''state'', JStr ''stop'')])) ''x'' =
     Some (JObj [(''type'', JStr ''tts''), (''state'', JStr ''stop'')]) \<and>
   map_of [(''type'', JStr ''tts''), (''state'', JStr ''stop'')] ''type'' = Some (JStr ''tts'') \<and>
   map_of [(''type'', JStr ''tts''), (''state'', JStr ''stop'')] ''state'' = Some (JStr ''stop'') \<and>
   (\<exists>c'. handle_control (\<lambda>s. Some (JObj [(''type'', JStr ''tts''), (''state'', JStr ''stop'')]))
            (handle_audio (AudioClient_ready loopback_codec) (replicate 2880 1) None) ''x'' = Inr c' \<and>
         d_items (output_buffer (audio c')) = [] \<and>
         speaker (audio c') = [replicate 2880 1])"
  using stop_clears_playback
    [of "\<lambda>s. Some (JObj [(''type'', JStr ''tts''), (''state'', JStr ''stop'')])" "''x''"
        "[(''type'', JStr ''tts''), (''state'', JStr ''stop'')]"
        "handle_audio (AudioClient_ready loopback_codec) (replicate 2880 1) None"]
  by (auto simp: handle_audio_speaker decode_loopback frame_bytes_value)

text \<open>
  C29. The only exceptions that leave \<^verbatim>\<open>_on_message\<close> are the \<^verbatim>\<open>AttributeError\<close>
  of a JSON text that is not an object and the \<^verbatim>\<open>KeyError\<close> of a missing
  \<^verbatim>\<open>state\<close>; a text that does not parse and every binary message are handled
  without one.
\<close>

theorem on_message_errors:
  "on_message loads c m dev = Inl e \<longleftrightarrow>
     (\<exists>s. m = Str s \<and>
        (case loads s of
           None \<Rightarrow> False
         | Some data \<Rightarrow>
             if is_dict data
             then e = KeyError ''state'' \<and> py_get data ''type'' = Inr (Some (JStr ''tts'')) \<and>
                  py_get data ''state'' = Inr None
             else e = AttributeError ''get''))"
proof (cases m)
  case (Bytes b)
  then show ?thesis by simp
next
  case (Str s)
  show ?thesis
  proof (cases "loads s")
    case None
    with Str show ?thesis by simp
  next
    case (Some data)
    show ?thesis
    proof (cases "is_dict data")
      case True
      then obtain items where "data = JObj items" by (rule is_dictE)
      with Some Str show ?thesis
        by (auto simp: handle_control_dict split: option.splits)
    next
      case False
      with Some Str show ?thesis
        by (auto simp: handle_control_not_dict)
    qed
  qed
qed

text \<open>
  With a codec that keeps the framing contract, every block handed to the output device
  is one full frame of \<open>2 * CHANNELS * CHUNK\<close> bytes.
\<close>

lemma played_blocks_framed:
  assumes "codec_framed oc"
  shows "list_all (\<lambda>pcm. length pcm = frame_bytes)
           (speaker (audio (dispatch_all loads (AudioClient_ready oc) ms)))"
  using assms dispatch_all_speaker [of "AudioClient_ready oc" loads ms]
  by (auto simp: list_all_iff dest: played_of_framed)

text \<open>
  \<^verbatim>\<open>_cleanup\<close> has no guard against a second call: run twice, it releases the audio
  device twice and closes the transport twice, and it never clears \<^verbatim>\<open>is_running\<close>.
\<close>

lemma cleanup_cleanup:
  "release_calls (audio (cleanup (cleanup c))) = release_calls (audio c) + 2 \<and>
   map_option close_calls (ws (cleanup (cleanup c))) = map_option (\<lambda>w. close_calls w + 2) (ws c) \<and>
   is_running (cleanup (cleanup c)) = is_running c"
  by (cases "ws c") (simp_all add: ws_close_def)

end
