(* ===== verification/Reconnect.thy ===== *)
theory Reconnect
  imports Prelude
begin

text \<open>
  The reconnect loop of \<^verbatim>\<open>AudioClient.run\<close> (\<^verbatim>\<open>src/main.py\<close>, lines 237 to 256).
  The loop is stated over any type \<open>'w\<close> of worlds and two operations on it: one
  connection attempt (\<^verbatim>\<open>ws.run_forever\<close>), which returns normally or raises and
  leaves a new world, and \<^verbatim>\<open>time.sleep\<close>. The engine instantiates both; here they
  are parameters, so that the bound on the attempts and the schedule of delays hold for
  every transport. The attempt and the sleep are told how many retries went before
  them. An attempt can also end with \<^verbatim>\<open>KeyboardInterrupt\<close>, which is no
  \<^verbatim>\<open>Exception\<close>: the \<^verbatim>\<open>except\<close> clause does not catch it and it leaves \<^verbatim>\<open>run\<close>.
  So can the sleep: it is called inside the \<^verbatim>\<open>except\<close> clause, and an interrupt
  that arrives while the main thread sleeps leaves \<^verbatim>\<open>run\<close> with the retry counted.
\<close>

section \<open>Definitions\<close>

datatype attempt = Returned | Raised | Interrupted

datatype rest = Rested | Disturbed

datatype run_result = Finished | Exhausted | Aborted

definition max_retries :: nat where
  "max_retries = 5"

definition backoff_delay :: "nat \<Rightarrow> nat" where
  "backoff_delay retries = min (2 ^ retries) 30"

function run_loop ::
  "(nat \<Rightarrow> 'w \<Rightarrow> attempt \<times> 'w) \<Rightarrow> (nat \<Rightarrow> nat \<Rightarrow> 'w \<Rightarrow> rest \<times> 'w) \<Rightarrow> nat \<Rightarrow> 'w \<Rightarrow>
     run_result \<times> nat \<times> 'w" where
  "run_loop run_forever sleep retries w =
     (if retries < max_retries then
        (case run_forever retries w of
           (Returned, w') \<Rightarrow> (Finished, retries, w')
         | (Interrupted, w') \<Rightarrow> (Aborted, retries, w')
         | (Raised, w') \<Rightarrow>
             (let retries' = retries + 1;
                  delay = backoff_delay retries'
              in case sleep retries' delay w' of
                   (Rested, w'') \<Rightarrow> run_loop run_forever sleep retries' w''
                 | (Disturbed, w'') \<Rightarrow> (Aborted, retries', w'')))
      else (Exhausted, retries, w))"
  by pat_completeness auto
termination
  by (relation "measure (\<lambda>(rf, sl, retries, w). max_retries - retries)") auto

declare run_loop.simps [simp del]

definition run ::
  "(nat \<Rightarrow> 'w \<Rightarrow> attempt \<times> 'w) \<Rightarrow> (nat \<Rightarrow> nat \<Rightarrow> 'w \<Rightarrow> rest \<times> 'w) \<Rightarrow> 'w \<Rightarrow>
     run_result \<times> nat \<times> 'w" where
  "run run_forever sleep w = run_loop run_forever sleep 0 w"

text \<open>
  The loop over the simplest world, the list of delays it has slept to their end,
  driven by the outcome of each attempt and of each sleep.
\<close>

definition nap :: "(nat \<Rightarrow> rest) \<Rightarrow> nat \<Rightarrow> nat \<Rightarrow> nat list \<Rightarrow> rest \<times> nat list" where
  "nap rests i delay ds = (rests i, if rests i = Rested then ds @ [delay] else ds)"

definition delays :: "(nat \<Rightarrow> attempt) \<Rightarrow> (nat \<Rightarrow> rest) \<Rightarrow> run_result \<times> nat \<times> nat list" where
  "delays env rests = run (\<lambda>i ds. (env i, ds)) (nap rests) []"

text \<open>
  The number of attempts that raise, from attempt \<open>i\<close> on and up to a bound, before the
  loop is left: by an attempt that does not raise or by a sleep that is disturbed. The
  sleep after attempt \<open>i\<close> has the index \<open>i + 1\<close>, the number of retries counted by
  then. After \<open>k\<close> such failures, \<open>cut_short\<close> says whether a disturbed sleep has ended the
  loop, \<open>slept\<close> is the number of sleeps that ran to their end, and \<open>ending\<close> is the
  result of the loop.
\<close>

fun failures :: "(nat \<Rightarrow> attempt) \<Rightarrow> (nat \<Rightarrow> rest) \<Rightarrow> nat \<Rightarrow> nat \<Rightarrow> nat" where
  "failures env rests i 0 = 0"
| "failures env rests i (Suc n) =
     (if env i = Raised
      then if rests (Suc i) = Rested then Suc (failures env rests (Suc i) n) else 1
      else 0)"

definition cut_short :: "(nat \<Rightarrow> rest) \<Rightarrow> nat \<Rightarrow> nat \<Rightarrow> bool" where
  "cut_short rests retries k \<longleftrightarrow> 0 < k \<and> rests (retries + k) = Disturbed"

definition slept :: "(nat \<Rightarrow> rest) \<Rightarrow> nat \<Rightarrow> nat \<Rightarrow> nat" where
  "slept rests retries k = (if cut_short rests retries k then k - 1 else k)"

definition ending :: "(nat \<Rightarrow> attempt) \<Rightarrow> (nat \<Rightarrow> rest) \<Rightarrow> nat \<Rightarrow> nat \<Rightarrow> run_result" where
  "ending env rests retries k =
     (if cut_short rests retries k then Aborted
      else if retries + k = max_retries then Exhausted
      else if env (retries + k) = Returned then Finished
      else Aborted)"

text \<open>
  Two runs of the loop, over different worlds, agree up to a relation \<open>R\<close> between the
  worlds: same result, same number of retries, related final worlds.
\<close>

definition run_rel ::
  "('w \<Rightarrow> 'u \<Rightarrow> bool) \<Rightarrow> run_result \<times> nat \<times> 'w \<Rightarrow> run_result \<times> nat \<times> 'u \<Rightarrow> bool" where
  "run_rel R x y \<longleftrightarrow>
     fst x = fst y \<and> fst (snd x) = fst (snd y) \<and> R (snd (snd x)) (snd (snd y))"

section \<open>The backoff schedule\<close>

lemma backoff_delay_values:
  "backoff_delay 1 = 2" "backoff_delay 2 = 4" "backoff_delay 3 = 8"
  "backoff_delay 4 = 16" "backoff_delay 5 = 30"
  by (simp_all add: backoff_delay_def)

lemma backoff_delay_le_cap: "backoff_delay n \<le> 30"
  by (simp add: backoff_delay_def)

lemma backoff_delay_ge_2: "0 < n \<Longrightarrow> 2 \<le> backoff_delay n"
proof -
  assume "0 < n"
  then have "(2::nat) ^ 1 \<le> 2 ^ n"
    by (intro power_increasing) simp_all
  then show ?thesis
    by (simp add: backoff_delay_def)
qed

lemma backoff_delay_mono: "m \<le> n \<Longrightarrow> backoff_delay m \<le> backoff_delay n"
  by (auto simp: backoff_delay_def min_le_iff_disj intro: power_increasing)

lemma backoff_delay_capped: "5 \<le> n \<Longrightarrow> backoff_delay n = 30"
proof -
  assume "5 \<le> n"
  then have "(2::nat) ^ 5 \<le> 2 ^ n"
    by (intro power_increasing) simp_all
  then show ?thesis
    by (simp add: backoff_delay_def)
qed

lemma backoff_delay_exact: "n < 5 \<Longrightarrow> backoff_delay n = 2 ^ n"
proof -
  assume "n < 5"
  then have "(2::nat) ^ n \<le> 2 ^ 4"
    by (intro power_increasing) simp_all
  then show ?thesis
    by (simp add: backoff_delay_def)
qed

section \<open>Unfolding the loop\<close>

lemma run_loop_exhausted:
  "max_retries \<le> retries \<Longrightarrow> run_loop rf sl retries w = (Exhausted, retries, w)"
  by (subst run_loop.simps) simp

lemma run_loop_returned:
  "retries < max_retries \<Longrightarrow> rf retries w = (Returned, w') \<Longrightarrow>
   run_loop rf sl retries w = (Finished, retries, w')"
  by (subst run_loop.simps) simp

lemma run_loop_interrupted:
  "retries < max_retries \<Longrightarrow> rf retries w = (Interrupted, w') \<Longrightarrow>
   run_loop rf sl retries w = (Aborted, retries, w')"
  by (subst run_loop.simps) simp

lemma run_loop_disturbed:
  "retries < max_retries \<Longrightarrow> rf retries w = (Raised, w') \<Longrightarrow>
   sl (Suc retries) (backoff_delay (Suc retries)) w' = (Disturbed, w'') \<Longrightarrow>
   run_loop rf sl retries w = (Aborted, Suc retries, w'')"
  by (subst run_loop.simps) simp

lemma run_loop_raised:
  "retries < max_retries \<Longrightarrow> rf retries w = (Raised, w') \<Longrightarrow>
   sl (Suc retries) (backoff_delay (Suc retries)) w' = (Rested, w'') \<Longrightarrow>
   run_loop rf sl retries w = run_loop rf sl (Suc retries) w''"
  by (subst run_loop.simps) simp

lemmas run_loop_unfold =
  run_loop_exhausted run_loop_returned run_loop_interrupted run_loop_disturbed run_loop_raised

text \<open>
  Induction along the loop: one case per way an iteration can go. The attempts left,
  \<open>max_retries - retries\<close>, decrease with every iteration that raises.
\<close>

lemma run_loop_induct [case_names exhausted returned interrupted disturbed raised]:
  assumes exhausted: "\<And>retries w. max_retries \<le> retries \<Longrightarrow> P retries w"
    and returned: "\<And>retries w w'.
      retries < max_retries \<Longrightarrow> rf retries w = (Returned, w') \<Longrightarrow> P retries w"
    and interrupted: "\<And>retries w w'.
      retries < max_retries \<Longrightarrow> rf retries w = (Interrupted, w') \<Longrightarrow> P retries w"
    and disturbed: "\<And>retries w w' w''.
      retries < max_retries \<Longrightarrow> rf retries w = (Raised, w') \<Longrightarrow>
      sl (Suc retries) (backoff_delay (Suc retries)) w' = (Disturbed, w'') \<Longrightarrow> P retries w"
    and raised: "\<And>retries w w' w''.
      retries < max_retries \<Longrightarrow> rf retries w = (Raised, w') \<Longrightarrow>
      sl (Suc retries) (backoff_delay (Suc retries)) w' = (Rested, w'') \<Longrightarrow>
      P (Suc retries) w'' \<Longrightarrow> P retries w"
  shows "P retries w"
proof (induction "max_retries - retries" arbitrary: retries w)
  case 0
  then show ?case by (simp add: exhausted)
next
  case (Suc k retries w)
  then have less: "retries < max_retries" and k: "k = max_retries - Suc retries"
    by simp_all
  obtain a v where rf: "rf retries w = (a, v)"
    by (cases "rf retries w")
  show ?case
  proof (cases a)
    case Returned
    with less rf show ?thesis by (auto intro: returned)
  next
    case Interrupted
    with less rf show ?thesis by (auto intro: interrupted)
  next
    case Raised
    obtain b u where sl: "sl (Suc retries) (backoff_delay (Suc retries)) v = (b, u)"
      by (cases "sl (Suc retries) (backoff_delay (Suc retries)) v")
    with less rf Raised Suc.hyps(1) [OF k] show ?thesis
      by (cases b) (auto intro: raised disturbed)
  qed
qed

section \<open>What every run satisfies\<close>

lemma run_loop_retries_bounds:
  "run_loop rf sl retries w = (res, n, w') \<Longrightarrow> retries \<le> n \<and> n \<le> max retries max_retries"
  by (induction retries w rule: run_loop_induct [where rf = rf and sl = sl])
     (auto simp: run_loop_unfold)

lemma run_loop_result:
  "run_loop rf sl retries w = (res, n, w') \<Longrightarrow> retries \<le> max_retries \<Longrightarrow>
   (res = Exhausted \<longleftrightarrow> n = max_retries \<and> res \<noteq> Aborted)"
  by (induction retries w rule: run_loop_induct [where rf = rf and sl = sl])
     (auto simp: run_loop_unfold)

lemma run_loop_invariant:
  assumes step: "\<And>i v a v'. P v \<Longrightarrow> rf i v = (a, v') \<Longrightarrow> P v'"
    and sleep: "\<And>i d v b v'. P v \<Longrightarrow> sl i d v = (b, v') \<Longrightarrow> P v'"
  shows "P w \<Longrightarrow> run_loop rf sl retries w = (res, n, w') \<Longrightarrow> P w'"
proof (induction retries w rule: run_loop_induct [where rf = rf and sl = sl])
  case (exhausted retries w)
  then show ?case by (simp add: run_loop_exhausted)
next
  case (returned retries w v)
  with step [of w retries Returned v] show ?case
    by (simp add: run_loop_returned)
next
  case (interrupted retries w v)
  with step [of w retries Interrupted v] show ?case
    by (simp add: run_loop_interrupted)
next
  case (disturbed retries w v u)
  from disturbed.prems(1) disturbed.hyps(2) have "P v" by (rule step)
  then have "P u" using disturbed.hyps(3) by (rule sleep)
  with disturbed show ?case by (simp add: run_loop_disturbed)
next
  case (raised retries w v u)
  from raised.prems(1) raised.hyps(2) have "P v" by (rule step)
  then have "P u" using raised.hyps(3) by (rule sleep)
  with raised show ?case by (simp add: run_loop_raised)
qed

section \<open>Simulation\<close>

text \<open>
  If the attempts and the sleeps of two instances of the loop keep a relation between
  their worlds, and related worlds make an attempt and a sleep end the same way, then
  the two loops end the same way, after the same number of retries, in related worlds.
\<close>

lemma sim_step:
  assumes "fst x = fst y \<and> R (snd x) (snd y)" and "x = (a, v)"
  shows "y = (a, snd y) \<and> R v (snd y)"
  using assms by (simp add: prod_eq_iff)

lemma sim_raised:
  assumes rf: "\<And>i v u. R v u \<Longrightarrow> fst (rf i v) = fst (rf' i u) \<and> R (snd (rf i v)) (snd (rf' i u))"
    and sl: "\<And>i d v u. R v u \<Longrightarrow>
      fst (sl i d v) = fst (sl' i d u) \<and> R (snd (sl i d v)) (snd (sl' i d u))"
    and "R w u" and "rf i w = (Raised, v)" and "sl j d v = (b, x)"
  obtains v' x' where "rf' i u = (Raised, v')" and "sl' j d v' = (b, x')" and "R x x'"
proof -
  from sim_step [where R = R, OF rf [OF assms(3), of i] assms(4)]
  have 1: "rf' i u = (Raised, snd (rf' i u))" and 2: "R v (snd (rf' i u))"
    by simp_all
  from sim_step [where R = R, OF sl [OF 2, of j d] assms(5)] 1 show thesis
    by (intro that [of "snd (rf' i u)" "snd (sl' j d (snd (rf' i u)))"]) simp_all
qed

lemma run_loop_sim:
  assumes rf: "\<And>i v u. R v u \<Longrightarrow> fst (rf i v) = fst (rf' i u) \<and> R (snd (rf i v)) (snd (rf' i u))"
    and sl: "\<And>i d v u. R v u \<Longrightarrow>
      fst (sl i d v) = fst (sl' i d u) \<and> R (snd (sl i d v)) (snd (sl' i d u))"
  shows "R w u \<Longrightarrow> run_rel R (run_loop rf sl retries w) (run_loop rf' sl' retries u)"
proof (induction retries w arbitrary: u rule: run_loop_induct [where rf = rf and sl = sl])
  case (exhausted retries w)
  then show ?case by (simp add: run_loop_exhausted run_rel_def)
next
  case (returned retries w v)
  from sim_step [where R = R, OF rf [OF returned.prems, of retries] returned.hyps(2)] returned.hyps
  show ?case
    by (simp add: run_loop_returned [of _ rf] run_loop_returned [of _ rf' _ "snd (rf' retries u)"]
        run_rel_def)
next
  case (interrupted retries w v)
  from sim_step [where R = R, OF rf [OF interrupted.prems, of retries] interrupted.hyps(2)]
    interrupted.hyps
  show ?case
    by (simp add: run_loop_interrupted [of _ rf]
        run_loop_interrupted [of _ rf' _ "snd (rf' retries u)"] run_rel_def)
next
  case (disturbed retries w v x)
  from rf sl disturbed.prems disturbed.hyps(2,3) obtain v' x'
    where "rf' retries u = (Raised, v')" and "R x x'"
      and "sl' (Suc retries) (backoff_delay (Suc retries)) v' = (Disturbed, x')"
    by (rule sim_raised)
  with disturbed.hyps show ?case
    by (simp add: run_loop_disturbed [of _ rf] run_loop_disturbed [of _ rf' _ v' _ x'] run_rel_def)
next
  case (raised retries w v x)
  from rf sl raised.prems raised.hyps(2,3) obtain v' x'
    where "rf' retries u = (Raised, v')" and x: "R x x'"
      and "sl' (Suc retries) (backoff_delay (Suc retries)) v' = (Rested, x')"
    by (rule sim_raised)
  with raised.hyps(1-3) raised.IH [OF x] show ?case
    by (simp add: run_loop_raised [of _ rf] run_loop_raised [of _ rf' _ v' _ x'])
qed

section \<open>The schedule of delays\<close>

lemma failures_le: "failures env rests i n \<le> n"
  by (induction n arbitrary: i) (simp_all add: Suc_leI)

lemma failures_stop: "env i \<noteq> Raised \<Longrightarrow> failures env rests i n = 0"
  by (cases n) simp_all

lemma failures_cut:
  "env i = Raised \<Longrightarrow> rests (Suc i) = Disturbed \<Longrightarrow> 0 < n \<Longrightarrow> failures env rests i n = 1"
  by (cases n) simp_all

lemma failures_go:
  "env i = Raised \<Longrightarrow> rests (Suc i) = Rested \<Longrightarrow> 0 < n \<Longrightarrow>
   failures env rests i n = Suc (failures env rests (Suc i) (n - 1))"
  by (cases n) simp_all

lemma upt_head: "r < n \<Longrightarrow> [Suc r ..< Suc n] = Suc r # [Suc (Suc r) ..< Suc n]"
  by (simp add: upt_conv_Cons del: upt_Suc)

lemma cut_short_simps:
  "cut_short rests retries 0 = False"
  "cut_short rests retries (Suc k) =
     (if k = 0 then rests (Suc retries) = Disturbed else cut_short rests (Suc retries) k)"
  by (simp_all add: cut_short_def)

lemma slept_le: "slept rests retries k \<le> k"
  by (simp add: slept_def)

lemma slept_Suc:
  "rests (Suc retries) = Rested \<Longrightarrow> slept rests retries (Suc k) = Suc (slept rests (Suc retries) k)"
  by (cases k) (simp_all add: slept_def cut_short_simps)

lemma ending_0:
  "ending env rests retries 0 =
     (if retries = max_retries then Exhausted
      else if env retries = Returned then Finished else Aborted)"
  by (simp add: ending_def cut_short_simps)

lemma ending_Suc:
  "rests (Suc retries) = Rested \<Longrightarrow> ending env rests retries (Suc k) = ending env rests (Suc retries) k"
  by (cases k) (simp_all add: ending_def cut_short_simps)

lemma ending_cut: "rests (Suc retries) = Disturbed \<Longrightarrow> ending env rests retries (Suc 0) = Aborted"
  by (simp add: ending_def cut_short_simps)

lemma run_loop_delays:
  "retries \<le> max_retries \<Longrightarrow>
   run_loop (\<lambda>i ds. (env i, ds)) (nap rests) retries ds =
     (let k = failures env rests retries (max_retries - retries)
      in (ending env rests retries k, retries + k,
          ds @ map backoff_delay [Suc retries ..< Suc (retries + slept rests retries k)]))"
proof (induction retries ds
    rule: run_loop_induct [where rf = "\<lambda>i ds. (env i, ds)" and sl = "nap rests"])
  case (exhausted retries ds)
  then show ?case by (simp add: run_loop_exhausted ending_0 slept_def cut_short_simps)
next
  case (returned retries ds ds')
  then show ?case by (simp add: run_loop_returned failures_stop ending_0 slept_def cut_short_simps)
next
  case (interrupted retries ds ds')
  then show ?case by (simp add: run_loop_interrupted failures_stop ending_0 slept_def cut_short_simps)
next
  case (disturbed retries ds ds' ds'')
  then show ?case
    by (auto simp: run_loop_disturbed [where w' = ds] failures_cut ending_def slept_def nap_def
        cut_short_simps)
next
  case (raised retries ds ds' ds'')
  define k where "k = failures env rests (Suc retries) (max_retries - Suc retries)"
  from raised have env: "env retries = Raised" and rest: "rests (Suc retries) = Rested"
    and ds'': "ds'' = ds @ [backoff_delay (Suc retries)]"
    by (auto simp: nap_def split: if_splits)
  with raised.hyps(1) have "failures env rests retries (max_retries - retries) = Suc k"
    by (simp add: failures_go k_def)
  with raised.hyps(1) raised.IH env rest ds'' show ?case
    using upt_head [of retries "Suc (retries + slept rests (Suc retries) k)"]
    by (simp add: run_loop_raised [where w' = ds] Let_def k_def ending_Suc slept_Suc nap_def
        del: upt_Suc)
qed

lemma delays_eq:
  "delays env rests =
     (let k = failures env rests 0 max_retries
      in (ending env rests 0 k, k, map backoff_delay [1 ..< Suc (slept rests 0 k)]))"
  by (simp add: delays_def run_def run_loop_delays Let_def)

lemma sum_backoff_le: "k \<le> 5 \<Longrightarrow> sum_list (map backoff_delay [1 ..< Suc k]) \<le> 60"
proof -
  assume "k \<le> 5"
  then consider "k = 0" | "k = 1" | "k = 2" | "k = 3" | "k = 4" | "k = 5"
    by linarith
  then show ?thesis
    by cases (simp_all add: backoff_delay_def upt_conv_Cons)
qed

section \<open>The loop as a whole\<close>

text \<open>
  C7. Whatever the transport does, \<^verbatim>\<open>run\<close> ends after at most \<open>max_retries\<close>
  failed attempts, and it reports exhaustion exactly when that many attempts have
  raised and no interrupt has ended the last sleep.
\<close>

theorem run_attempts_bounded:
  "(case run rf sl w of (res, n, w') \<Rightarrow>
      n \<le> max_retries \<and> (res = Exhausted \<longleftrightarrow> n = max_retries \<and> res \<noteq> Aborted))"
proof -
  obtain res n w' where r: "run_loop rf sl 0 w = (res, n, w')"
    by (cases "run_loop rf sl 0 w")
  from run_loop_retries_bounds [OF r] run_loop_result [OF r] show ?thesis
    by (simp add: run_def r)
qed

text \<open>
  C37. The schedule of delays: if \<open>k\<close> attempts raise before the loop is left (by an
  attempt that does not raise, by a disturbed sleep, or because the budget of five is
  used up), the loop sleeps \<open>min (2 ^ i) 30\<close> seconds after the \<open>i\<close>-th of them, for
  \<open>i\<close> from 1 to \<open>k\<close>, the last of these sleeps being the one that may be disturbed;
  it ends aborted if that sleep was disturbed, and else exhausted, finished or aborted
  according to the budget and to how attempt \<open>k\<close> went.
\<close>

theorem delays_schedule:
  "delays env rests =
     (let k = failures env rests 0 max_retries;
          disturbed = (0 < k \<and> rests k = Disturbed)
      in (if disturbed then Aborted
          else if k = max_retries then Exhausted
          else if env k = Returned then Finished else Aborted,
          k, map (\<lambda>i. min (2 ^ i) 30) [1 ..< (if disturbed then k else Suc k)]))"
proof -
  have "backoff_delay = (\<lambda>i. min (2 ^ i) 30)"
    by (rule ext) (simp add: backoff_delay_def)
  moreover have "0 < k \<Longrightarrow> Suc (k - 1) = k" for k :: nat
    by simp
  ultimately show ?thesis
    using delays_eq [of env rests] by (simp add: ending_def slept_def cut_short_def Let_def del: upt_Suc)
qed


text \<open>
  The loop never sleeps more than 60 seconds in total, and each single delay is between
  2 and 30 seconds.
\<close>

lemma total_backoff_bounded:
  "sum_list (snd (snd (delays env rests))) \<le> 60 \<and>
   list_all (\<lambda>d. 2 \<le> d \<and> d \<le> 30) (snd (snd (delays env rests)))"
proof -
  let ?k = "slept rests 0 (failures env rests 0 max_retries)"
  have "?k \<le> 5"
    using failures_le [of env rests 0 max_retries] slept_le [of rests 0 "failures env rests 0 max_retries"]
    by (simp add: max_retries_def)
  then have "sum_list (map backoff_delay [1 ..< Suc ?k]) \<le> 60"
    by (rule sum_backoff_le)
  moreover have "list_all (\<lambda>d. 2 \<le> d \<and> d \<le> 30) (map backoff_delay [1 ..< Suc k])" for k
    by (auto simp: list_all_iff backoff_delay_le_cap backoff_delay_ge_2 simp del: upt_Suc)
  ultimately show ?thesis
    by (simp add: delays_eq Let_def del: upt_Suc)
qed

end
