(* ===== verification/Engine.thy ===== *)
theory Engine
  imports Client Reconnect "HOL-Library.Sublist"
begin

text \<open>
  The running program of \<^verbatim>\<open>src/main.py\<close>: the client, the threads it has started, the
  wall clock and what has gone out on the transport. \<^verbatim>\<open>_on_open\<close> (lines 154 to 165),
  \<^verbatim>\<open>_send_loop\<close> (167 to 185) and \<^verbatim>\<open>_keepalive\<close> (187 to 194) are modelled here,
  the two loops as small-step machines with one program counter per thread, so that
  any interleaving of the threads, the callbacks of the transport and the microphone
  callback is a list of events. \<open>step\<close> performs one event, \<open>exec\<close> a list of them,
  \<open>reachable\<close> is the set of worlds a list of events leads to. \<open>main\<close> composes the
  reconnect loop with the engine as the last lines of the source do, and \<open>program\<close>
  puts the construction of the client before it.

  Granularity. One step of a send thread is one of: enter the loop and read the clock
  (\<open>S_Start\<close>); test the flag, read the clock and compute the sleep time (\<open>S_Head\<close>);
  wake up (\<open>S_Sleep\<close>); take a frame from the queue and encode it (\<open>S_Body\<close>); hand
  the encoded frame to the transport (\<open>S_Send\<close>); read the clock into
  \<^verbatim>\<open>last_send\<close> (\<open>S_Stamp\<close>). Other threads and callbacks can run between any two
  of them, so a thread can hold an encoded frame while another one sends. One step of
  a keepalive thread is the test of the flag or the wake-up with its ping.

  Conventions. Time passes only in \<open>Tick\<close> events; every other event is instantaneous.
  A thread in \<^verbatim>\<open>time.sleep\<close> wakes no earlier than requested. Whether the network
  accepts a frame is an input of the event; \<open>wire\<close> records each accepted frame with
  the clock and the sending thread. \<open>captured\<close> and \<open>taken\<close> record the frames that
  entered and left the capture queue; like \<open>wire\<close> they are observations, not fields of
  the source. The attributes \<^verbatim>\<open>send_thread\<close> and \<^verbatim>\<open>keepalive_thread\<close> are only
  written by the source; the newest threads are the last two of \<open>threads\<close>.
\<close>

section \<open>Threads\<close>

datatype send_pc =
    S_Start
  | S_Head seconds
  | S_Sleep seconds seconds
  | S_Body seconds
  | S_Send bytes
  | S_Stamp
  | S_Done

datatype keep_pc = K_Head | K_Sleep seconds | K_Done

datatype thread = SendLoop send_pc | Keepalive keep_pc

section \<open>The world\<close>

type_synonym wire_frame = "seconds \<times> nat \<times> opcode \<times> payload"

record world =
  client :: audio_client
  threads :: "thread list"
  clock :: seconds
  wire :: "wire_frame list"
  blocked_capture :: "bytes option"
  captured :: "bytes list"
  taken :: "bytes list"

definition init_world :: "opus_codec \<Rightarrow> world" where
  "init_world oc =
     \<lparr>client = AudioClient_ready oc, threads = [], clock = 0, wire = [],
      blocked_capture = None, captured = [], taken = []\<rparr>"

definition set_thread :: "nat \<Rightarrow> thread \<Rightarrow> world \<Rightarrow> world" where
  "set_thread i t w = w\<lparr>threads := (threads w)[i := t]\<rparr>"

definition set_audio :: "audio_io \<Rightarrow> world \<Rightarrow> world" where
  "set_audio a w = w\<lparr>client := (client w)\<lparr>audio := a\<rparr>\<rparr>"

text \<open>
  \<^verbatim>\<open>self.ws.send(data, opcode)\<close>: \<open>None\<close> when the call raises, because there is no
  transport object or because the network refuses the frame.
\<close>

definition ws_send :: "world \<Rightarrow> nat \<Rightarrow> payload \<Rightarrow> opcode \<Rightarrow> ws_error option \<Rightarrow> world option" where
  "ws_send w i data opc net =
     (case ws (client w) of
        None \<Rightarrow> None
      | Some app \<Rightarrow>
          (case net of
             Some e \<Rightarrow> None
           | None \<Rightarrow> Some (w\<lparr>wire := wire w @ [(clock w, i, opc, data)]\<rparr>)))"

section \<open>Connection open\<close>

definition on_open :: "world \<Rightarrow> world" where
  "on_open w =
     w\<lparr>client := (client w)\<lparr>is_running := True\<rparr>,
       threads := threads w @ [SendLoop S_Start, Keepalive K_Head]\<rparr>"

section \<open>The send loop\<close>

definition frames_of :: "bytes option \<Rightarrow> bytes list" where
  "frames_of v = (case v of None \<Rightarrow> [] | Some b \<Rightarrow> [b])"

definition send_body :: "world \<Rightarrow> nat \<Rightarrow> seconds \<Rightarrow> world" where
  "send_body w i last_send =
     (let (pcm_frame, a) = get_input_frame (audio (client w));
          w1 = (set_audio a w)\<lparr>taken := taken w @ frames_of pcm_frame\<rparr>
      in if truthy pcm_frame then
           let opus_frame = encode (codec (client w1)) (the pcm_frame)
           in if truthy opus_frame then set_thread i (SendLoop (S_Send (the opus_frame))) w1
              else set_thread i (SendLoop (S_Head last_send)) w1
         else set_thread i (SendLoop (S_Head last_send)) w1)"

definition send_frame :: "world \<Rightarrow> nat \<Rightarrow> bytes \<Rightarrow> ws_error option \<Rightarrow> world" where
  "send_frame w i opus_frame net =
     (case ws_send w i (Bytes opus_frame) OPCODE_BINARY net of
        Some w1 \<Rightarrow> set_thread i (SendLoop S_Stamp) w1
      | None \<Rightarrow> set_thread i (SendLoop S_Done) w)"

definition send_head :: "world \<Rightarrow> nat \<Rightarrow> seconds \<Rightarrow> world" where
  "send_head w i last_send =
     (if is_running (client w) then
        let elapsed = clock w - last_send;
            sleep_time = frame_period - elapsed
        in if sleep_time > 0 then set_thread i (SendLoop (S_Sleep last_send (clock w + sleep_time))) w
           else set_thread i (SendLoop (S_Body last_send)) w
      else set_thread i (SendLoop S_Done) w)"

fun send_loop :: "world \<Rightarrow> nat \<Rightarrow> send_pc \<Rightarrow> ws_error option \<Rightarrow> world" where
  "send_loop w i S_Start net = set_thread i (SendLoop (S_Head (clock w))) w"
| "send_loop w i (S_Head last_send) net = send_head w i last_send"
| "send_loop w i (S_Sleep last_send wake) net =
     (if wake \<le> clock w then set_thread i (SendLoop (S_Body last_send)) w else w)"
| "send_loop w i (S_Body last_send) net = send_body w i last_send"
| "send_loop w i (S_Send opus_frame) net = send_frame w i opus_frame net"
| "send_loop w i S_Stamp net = set_thread i (SendLoop (S_Head (clock w))) w"
| "send_loop w i S_Done net = w"

section \<open>The keepalive loop\<close>

fun keepalive :: "world \<Rightarrow> nat \<Rightarrow> keep_pc \<Rightarrow> ws_error option \<Rightarrow> world" where
  "keepalive w i K_Head net =
     (if is_running (client w)
      then set_thread i (Keepalive (K_Sleep (clock w + real (ping_interval (client w))))) w
      else set_thread i (Keepalive K_Done) w)"
| "keepalive w i (K_Sleep wake) net =
     (if wake \<le> clock w then
        (case ws_send w i (Str ''PING'') OPCODE_PING net of
           Some w1 \<Rightarrow> set_thread i (Keepalive K_Head) w1
         | None \<Rightarrow> set_thread i (Keepalive K_Head) w)
      else w)"
| "keepalive w i K_Done net = w"

section \<open>The microphone\<close>

definition capture :: "world \<Rightarrow> bytes \<Rightarrow> world" where
  "capture w in_data =
     (if input_stream (audio (client w)) = Running \<and> blocked_capture w = None then
        (case input_callback (audio (client w)) in_data of
           None \<Rightarrow> w\<lparr>blocked_capture := Some in_data\<rparr>
         | Some (a, r) \<Rightarrow> (set_audio a w)\<lparr>captured := captured w @ [in_data]\<rparr>)
      else w)"

definition capture_resume :: "world \<Rightarrow> world" where
  "capture_resume w =
     (case blocked_capture w of
        None \<Rightarrow> w
      | Some in_data \<Rightarrow>
          (case input_callback (audio (client w)) in_data of
             None \<Rightarrow> w
           | Some (a, r) \<Rightarrow>
               (set_audio a w)\<lparr>captured := captured w @ [in_data], blocked_capture := None\<rparr>))"

section \<open>Events\<close>

datatype event =
    Tick seconds
  | Capture bytes
  | CaptureResume
  | Open
  | Message payload "audio_error option"
  | Error
  | Close
  | Step nat "ws_error option"
  | Interrupt

definition thread_step :: "world \<Rightarrow> nat \<Rightarrow> ws_error option \<Rightarrow> world" where
  "thread_step w i net =
     (if i < length (threads w) then
        (case threads w ! i of
           SendLoop pc \<Rightarrow> send_loop w i pc net
         | Keepalive pc \<Rightarrow> keepalive w i pc net)
      else w)"

fun step :: "json_parser \<Rightarrow> world \<Rightarrow> event \<Rightarrow> world" where
  "step loads w (Tick d) = (if 0 \<le> d then w\<lparr>clock := clock w + d\<rparr> else w)"
| "step loads w (Capture in_data) = capture w in_data"
| "step loads w CaptureResume = capture_resume w"
| "step loads w Open = on_open w"
| "step loads w (Message m dev) =
     (case on_message loads (client w) m dev of
        Inl e \<Rightarrow> w
      | Inr c \<Rightarrow> w\<lparr>client := c\<rparr>)"
| "step loads w Error = w\<lparr>client := on_error (client w)\<rparr>"
| "step loads w Close = w\<lparr>client := on_close (client w)\<rparr>"
| "step loads w (Step i net) = thread_step w i net"
| "step loads w Interrupt = w\<lparr>client := cleanup (client w)\<rparr>"

fun exec :: "json_parser \<Rightarrow> world \<Rightarrow> event list \<Rightarrow> world" where
  "exec loads w [] = w"
| "exec loads w (e # es) = exec loads (step loads w e) es"

inductive reachable :: "json_parser \<Rightarrow> opus_codec \<Rightarrow> world \<Rightarrow> bool" for loads oc where
  init: "reachable loads oc (init_world oc)"
| step: "reachable loads oc w \<Longrightarrow> reachable loads oc (step loads w e)"

section \<open>The program\<close>

text \<open>
  One call of \<^verbatim>\<open>run_forever\<close> is the list of events that happen while it runs and
  the way it ends. While the main thread is in \<^verbatim>\<open>time.sleep(delay)\<close> the transport
  calls nothing, but the threads and the microphone go on: one sleep is the list of
  \<open>background\<close> events that happen meanwhile and the way it ends. A sleep that is not
  disturbed returns when at least \<open>delay\<close> seconds have passed; one that is disturbed
  by \<^verbatim>\<open>KeyboardInterrupt\<close> ends when its events have happened.
\<close>

type_synonym schedule = "nat \<Rightarrow> event list \<times> attempt"

type_synonym naps = "nat \<Rightarrow> event list \<times> rest"

fun background :: "event \<Rightarrow> bool" where
  "background (Tick d) = True"
| "background (Capture in_data) = True"
| "background CaptureResume = True"
| "background (Step i net) = True"
| "background e = False"

definition run_forever :: "json_parser \<Rightarrow> schedule \<Rightarrow> nat \<Rightarrow> world \<Rightarrow> attempt \<times> world" where
  "run_forever loads sched n w = (snd (sched n), exec loads w (fst (sched n)))"

definition sleep :: "json_parser \<Rightarrow> naps \<Rightarrow> nat \<Rightarrow> nat \<Rightarrow> world \<Rightarrow> rest \<times> world" where
  "sleep loads nps n delay w =
     (let w1 = exec loads w (filter background (fst (nps n)))
      in case snd (nps n) of
           Rested \<Rightarrow> (Rested, w1\<lparr>clock := max (clock w1) (clock w + real delay)\<rparr>)
         | Disturbed \<Rightarrow> (Disturbed, w1))"

definition main ::
  "json_parser \<Rightarrow> opus_codec \<Rightarrow> schedule \<Rightarrow> naps \<Rightarrow> run_result \<times> nat \<times> world" where
  "main loads oc sched nps =
     (case run (run_forever loads sched) (sleep loads nps) (init_world oc) of
        (Aborted, n, w) \<Rightarrow> (Aborted, n, w\<lparr>client := cleanup (client w)\<rparr>)
      | (res, n, w) \<Rightarrow> (res, n, w))"

text \<open>
  The entry point (lines 258 to 264) constructs the client outside the \<^verbatim>\<open>try\<close>: a
  failed construction ends the program with that exception and \<^verbatim>\<open>run\<close> is never
  called. After a construction without failure the client is \<open>AudioClient_ready\<close> of its
  codec, the client \<open>init_world\<close> starts from.
\<close>

definition program ::
  "json_parser \<Rightarrow> opus_lib \<Rightarrow> portaudio \<Rightarrow> schedule \<Rightarrow> naps \<Rightarrow>
     init_error \<times> audio_io option + run_result \<times> nat \<times> world" where
  "program loads lib pa sched nps =
     (case AudioClient_init lib pa of
        Inl err \<Rightarrow> Inl err
      | Inr c \<Rightarrow> Inr (main loads (codec c) sched nps))"

section \<open>Names for the branches of the send loop\<close>

text \<open>
  \<open>dequeued\<close> is the world after the body has asked the capture queue for a frame,
  \<open>sendable\<close> the encoded frame if both walrus conditions of lines 179 and 180 hold,
  \<open>outgoing\<close> the frame the body will hand to the transport, \<open>head_pc\<close> the
  program counter after the loop condition and the computation of the sleep time,
  \<open>ping_frame\<close> and \<open>audio_frame\<close> the two kinds of frame on the wire.
\<close>

definition dequeued :: "world \<Rightarrow> world" where
  "dequeued w =
     (set_audio (snd (get_input_frame (audio (client w)))) w)
       \<lparr>taken := taken w @ frames_of (fst (get_input_frame (audio (client w))))\<rparr>"

definition sendable :: "opus_codec \<Rightarrow> bytes \<Rightarrow> bytes option" where
  "sendable oc pcm =
     (if pcm = [] then None
      else case encode oc pcm of
             None \<Rightarrow> None
           | Some opus \<Rightarrow> if opus = [] then None else Some opus)"

definition outgoing :: "world \<Rightarrow> bytes option" where
  "outgoing w =
     (case fst (get_input_frame (audio (client w))) of
        None \<Rightarrow> None
      | Some pcm \<Rightarrow> sendable (codec (client w)) pcm)"

definition head_pc :: "world \<Rightarrow> seconds \<Rightarrow> send_pc" where
  "head_pc w last_send =
     (if is_running (client w) then
        if frame_period - (clock w - last_send) > 0
        then S_Sleep last_send (clock w + (frame_period - (clock w - last_send)))
        else S_Body last_send
      else S_Done)"

definition ping_frame :: "world \<Rightarrow> nat \<Rightarrow> wire_frame" where
  "ping_frame w i = (clock w, i, OPCODE_PING, Str ''PING'')"

definition audio_frame :: "world \<Rightarrow> nat \<Rightarrow> bytes \<Rightarrow> wire_frame" where
  "audio_frame w i opus = (clock w, i, OPCODE_BINARY, Bytes opus)"

text \<open>
  \<open>inflight\<close> is the encoded frame a send thread holds between taking it from the
  queue and handing it to the transport; \<open>is_keepalive\<close> tells the two kinds of thread
  apart.
\<close>

fun inflight :: "thread \<Rightarrow> bytes list" where
  "inflight (SendLoop (S_Send opus_frame)) = [opus_frame]"
| "inflight t = []"

fun is_keepalive :: "thread \<Rightarrow> bool" where
  "is_keepalive (Keepalive pc) = True"
| "is_keepalive (SendLoop pc) = False"

section \<open>Example runs\<close>

text \<open>
  Three runs with the loopback codec, used where a theorem is applied to a concrete
  run. In \<open>steady_run\<close> the send thread is scheduled at once whenever it can move. In
  \<open>late_run\<close> it reads the clock ten milliseconds after each transmission. In
  \<open>reconnect_run\<close> the connection fails and is opened again while the first send
  thread sleeps, so that two send threads serve the same queue.
\<close>

definition pcm0 :: bytes where
  "pcm0 = replicate 2880 0"

definition pcm1 :: bytes where
  "pcm1 = replicate 2880 1"

definition steady_run :: "event list" where
  "steady_run =
     [Open, Capture pcm0, Capture pcm1,
      Step 0 None, Step 0 None, Tick (3 / 50), Step 0 None, Step 0 None, Step 0 None,
      Step 0 None, Step 0 None, Tick (3 / 50), Step 0 None, Step 0 None, Step 0 None]"

definition late_run :: "event list" where
  "late_run =
     [Open, Capture pcm0, Capture pcm1, Capture pcm0,
      Step 0 None, Step 0 None, Tick (3 / 50), Step 0 None, Step 0 None, Step 0 None,
      Tick (1 / 100), Step 0 None, Step 0 None, Tick (3 / 50), Step 0 None, Step 0 None,
      Step 0 None,
      Tick (1 / 100), Step 0 None, Step 0 None, Tick (3 / 50), Step 0 None, Step 0 None,
      Step 0 None]"

definition reconnect_run :: "event list" where
  "reconnect_run =
     [Open, Step 0 None, Step 0 None, Error, Open, Step 2 None, Step 2 None, Tick (3 / 50),
      Step 0 None, Step 2 None, Capture pcm0, Capture pcm1,
      Step 0 None, Step 2 None, Step 2 None, Step 0 None]"

lemmas engine_defs =
  init_world_def set_thread_def set_audio_def ws_send_def on_open_def frames_of_def
  send_body_def send_frame_def send_head_def capture_def capture_resume_def thread_step_def
  run_forever_def sleep_def main_def program_def dequeued_def sendable_def outgoing_def head_pc_def ping_frame_def
  audio_frame_def

declare engine_defs [model_defs]

text \<open>What a concrete run is evaluated with: every definition of the model.\<close>

lemmas run_defs = model_defs Let_def truthy_def pcm0_def pcm1_def

section \<open>Field lemmas\<close>

lemma set_thread_fields [simp]:
  "client (set_thread i t w) = client w"
  "clock (set_thread i t w) = clock w"
  "wire (set_thread i t w) = wire w"
  "blocked_capture (set_thread i t w) = blocked_capture w"
  "captured (set_thread i t w) = captured w"
  "taken (set_thread i t w) = taken w"
  "threads (set_thread i t w) = (threads w)[i := t]"
  by (simp_all add: set_thread_def)

lemma set_audio_fields [simp]:
  "audio (client (set_audio a w)) = a"
  "ws (client (set_audio a w)) = ws (client w)"
  "codec (client (set_audio a w)) = codec (client w)"
  "is_running (client (set_audio a w)) = is_running (client w)"
  "ping_interval (client (set_audio a w)) = ping_interval (client w)"
  "clock (set_audio a w) = clock w"
  "wire (set_audio a w) = wire w"
  "threads (set_audio a w) = threads w"
  "blocked_capture (set_audio a w) = blocked_capture w"
  "captured (set_audio a w) = captured w"
  "taken (set_audio a w) = taken w"
  by (simp_all add: set_audio_def)

lemma init_world_fields [simp]:
  "client (init_world oc) = AudioClient_ready oc"
  "threads (init_world oc) = []"
  "clock (init_world oc) = 0"
  "wire (init_world oc) = []"
  "blocked_capture (init_world oc) = None"
  "captured (init_world oc) = []"
  "taken (init_world oc) = []"
  by (simp_all add: init_world_def)

lemma ws_send_Some_iff:
  "ws_send w i data opc net = Some w' \<longleftrightarrow>
     ws (client w) \<noteq> None \<and> net = None \<and> w' = w\<lparr>wire := wire w @ [(clock w, i, opc, data)]\<rparr>"
  by (auto simp: ws_send_def split: option.splits)

lemma ws_send_None_iff:
  "ws_send w i data opc net = None \<longleftrightarrow> ws (client w) = None \<or> net \<noteq> None"
  by (auto simp: ws_send_def split: option.splits)

lemma on_open_fields [simp]:
  "is_running (client (on_open w)) = True"
  "audio (client (on_open w)) = audio (client w)"
  "ws (client (on_open w)) = ws (client w)"
  "codec (client (on_open w)) = codec (client w)"
  "ping_interval (client (on_open w)) = ping_interval (client w)"
  "threads (on_open w) = threads w @ [SendLoop S_Start, Keepalive K_Head]"
  "clock (on_open w) = clock w"
  "wire (on_open w) = wire w"
  "blocked_capture (on_open w) = blocked_capture w"
  "captured (on_open w) = captured w"
  "taken (on_open w) = taken w"
  by (simp_all add: on_open_def)

lemma capture_frame [simp]:
  "wire (capture w d) = wire w" "threads (capture w d) = threads w"
  "clock (capture w d) = clock w"
  "ping_interval (client (capture w d)) = ping_interval (client w)"
  "taken (capture w d) = taken w"
  by (auto simp: capture_def split: option.splits)

lemma capture_resume_frame [simp]:
  "wire (capture_resume w) = wire w" "threads (capture_resume w) = threads w"
  "clock (capture_resume w) = clock w"
  "ping_interval (client (capture_resume w)) = ping_interval (client w)"
  "taken (capture_resume w) = taken w"
  by (auto simp: capture_resume_def split: option.splits)

section \<open>The body of the send loop, branch by branch\<close>

lemma dequeued_fields [simp]:
  "audio (client (dequeued w)) = snd (get_input_frame (audio (client w)))"
  "ws (client (dequeued w)) = ws (client w)"
  "codec (client (dequeued w)) = codec (client w)"
  "is_running (client (dequeued w)) = is_running (client w)"
  "ping_interval (client (dequeued w)) = ping_interval (client w)"
  "clock (dequeued w) = clock w"
  "wire (dequeued w) = wire w"
  "threads (dequeued w) = threads w"
  "blocked_capture (dequeued w) = blocked_capture w"
  "captured (dequeued w) = captured w"
  "taken (dequeued w) = taken w @ frames_of (fst (get_input_frame (audio (client w))))"
  by (simp_all add: dequeued_def)

lemma send_body_idle:
  "outgoing w = None \<Longrightarrow>
   send_body w i last_send = set_thread i (SendLoop (S_Head last_send)) (dequeued w)"
  by (auto simp: send_body_def outgoing_def sendable_def dequeued_def Let_def
      split: prod.splits option.splits if_splits)

lemma send_body_ready:
  "outgoing w = Some opus \<Longrightarrow>
   send_body w i last_send = set_thread i (SendLoop (S_Send opus)) (dequeued w)"
  by (auto simp: send_body_def outgoing_def sendable_def dequeued_def Let_def
      split: prod.splits option.splits if_splits)

lemma outgoing_nonempty: "outgoing w = Some opus \<Longrightarrow> opus \<noteq> []"
  by (auto simp: outgoing_def sendable_def split: option.splits if_splits)

lemma send_body_cases [case_names idle ready]:
  assumes "outgoing w = None \<Longrightarrow>
      send_body w i last_send = set_thread i (SendLoop (S_Head last_send)) (dequeued w) \<Longrightarrow> P"
    and "\<And>opus. outgoing w = Some opus \<Longrightarrow> opus \<noteq> [] \<Longrightarrow>
      send_body w i last_send = set_thread i (SendLoop (S_Send opus)) (dequeued w) \<Longrightarrow> P"
  shows P
  using assms
  by (cases "outgoing w") (auto simp: send_body_idle send_body_ready dest: outgoing_nonempty)

lemma send_body_fields [simp]:
  "audio (client (send_body w i last_send)) = snd (get_input_frame (audio (client w)))"
  "ws (client (send_body w i last_send)) = ws (client w)"
  "codec (client (send_body w i last_send)) = codec (client w)"
  "is_running (client (send_body w i last_send)) = is_running (client w)"
  "ping_interval (client (send_body w i last_send)) = ping_interval (client w)"
  "clock (send_body w i last_send) = clock w"
  "wire (send_body w i last_send) = wire w"
  "blocked_capture (send_body w i last_send) = blocked_capture w"
  "captured (send_body w i last_send) = captured w"
  "taken (send_body w i last_send) =
     taken w @ frames_of (fst (get_input_frame (audio (client w))))"
  "length (threads (send_body w i last_send)) = length (threads w)"
  by (rule send_body_cases [of w i last_send]; simp)+

section \<open>The transmission of an encoded frame\<close>

lemma send_frame_sent:
  "ws (client w) \<noteq> None \<Longrightarrow>
   send_frame w i opus None =
     set_thread i (SendLoop S_Stamp) (w\<lparr>wire := wire w @ [audio_frame w i opus]\<rparr>)"
  by (auto simp: send_frame_def ws_send_def audio_frame_def split: option.splits)

lemma send_frame_failed:
  "ws (client w) = None \<or> net \<noteq> None \<Longrightarrow>
   send_frame w i opus net = set_thread i (SendLoop S_Done) w"
  by (auto simp: send_frame_def ws_send_def split: option.splits)

lemma send_frame_effect:
  "send_frame w i opus net = set_thread i (SendLoop S_Done) w \<or>
   send_frame w i opus net =
     set_thread i (SendLoop S_Stamp) (w\<lparr>wire := wire w @ [audio_frame w i opus]\<rparr>)"
  by (cases "ws (client w) = None \<or> net \<noteq> None")
     (auto simp: send_frame_failed send_frame_sent)

section \<open>What a thread step can do\<close>

lemma send_head_eq: "send_head w i last_send = set_thread i (SendLoop (head_pc w last_send)) w"
  by (simp add: send_head_def head_pc_def Let_def)

lemma inflight_head_pc [simp]: "inflight (SendLoop (head_pc w last_send)) = []"
  by (simp add: head_pc_def)

lemma keep_moveI:
  assumes "x = set_thread i (Keepalive pc') w"
  shows "x = w \<or> (\<exists>t. inflight t = [] \<and> is_keepalive t \<and> x = set_thread i t w) \<or> A"
  using assms by (intro disjI2 disjI1 exI [of _ "Keepalive pc'"]) simp

lemma keepalive_effect:
  "keepalive w i pc net = w \<or>
   (\<exists>t. inflight t = [] \<and> is_keepalive t \<and> keepalive w i pc net = set_thread i t w) \<or>
   keepalive w i pc net =
     set_thread i (Keepalive K_Head) (w\<lparr>wire := wire w @ [ping_frame w i]\<rparr>)"
proof (cases pc)
  case K_Head
  show ?thesis
    by (rule keep_moveI [of _ _ "if is_running (client w)
          then K_Sleep (clock w + real (ping_interval (client w))) else K_Done"])
       (simp add: K_Head)
next
  case (K_Sleep wake)
  show ?thesis
  proof (cases "wake \<le> clock w \<and> (ws (client w) = None \<or> net \<noteq> None)")
    case True
    then show ?thesis
      by (intro keep_moveI [of _ _ K_Head]) (auto simp: K_Sleep ws_send_def split: option.splits)
  next
    case False
    then show ?thesis
      by (auto simp: K_Sleep ws_send_def ping_frame_def split: option.splits)
  qed
qed simp

lemma quiet_moveI:
  assumes "inflight (SendLoop pc') = []" and "x = set_thread i (SendLoop pc') w"
  shows "x = w \<or> (\<exists>t. inflight t = [] \<and> \<not> is_keepalive t \<and> x = set_thread i t w) \<or> A \<or> B"
  using assms by (intro disjI2 disjI1 exI [of _ "SendLoop pc'"]) simp

lemma send_loop_effect:
  "send_loop w i pc net = w \<or>
   (\<exists>t. inflight t = [] \<and> \<not> is_keepalive t \<and> send_loop w i pc net = set_thread i t w) \<or>
   (\<exists>last_send. pc = S_Body last_send \<and> send_loop w i pc net = send_body w i last_send) \<or>
   (\<exists>opus. pc = S_Send opus \<and>
      send_loop w i pc net =
        set_thread i (SendLoop S_Stamp) (w\<lparr>wire := wire w @ [audio_frame w i opus]\<rparr>))"
proof (cases pc)
  case S_Start
  show ?thesis by (rule quiet_moveI [of "S_Head (clock w)"]) (simp_all add: S_Start)
next
  case (S_Head last_send)
  show ?thesis by (rule quiet_moveI [of "head_pc w last_send"]) (simp_all add: S_Head send_head_eq)
next
  case (S_Sleep last_send wake)
  show ?thesis
    by (cases "wake \<le> clock w") (rule quiet_moveI [of "S_Body last_send"], simp_all add: S_Sleep)
next
  case (S_Send opus)
  from send_frame_effect [of w i opus net] show ?thesis
  proof
    assume "send_frame w i opus net = set_thread i (SendLoop S_Done) w"
    then show ?thesis by (intro quiet_moveI [of S_Done]) (simp_all add: S_Send)
  qed (simp add: S_Send)
next
  case S_Stamp
  show ?thesis by (rule quiet_moveI [of "S_Head (clock w)"]) (simp_all add: S_Stamp)
qed simp_all

text \<open>
  The five things a step of thread \<open>i\<close> can do: nothing; move the thread to a program
  counter of the same kind that holds no frame; run the body; transmit the frame the
  thread holds; transmit a ping.
\<close>

lemma thread_step_cases [case_names same moved body sent ping]:
  assumes "thread_step w i net = w \<Longrightarrow> P"
    and "\<And>t. i < length (threads w) \<Longrightarrow> inflight t = [] \<Longrightarrow>
           is_keepalive t = is_keepalive (threads w ! i) \<Longrightarrow>
           thread_step w i net = set_thread i t w \<Longrightarrow> P"
    and "\<And>last_send. i < length (threads w) \<Longrightarrow> threads w ! i = SendLoop (S_Body last_send) \<Longrightarrow>
           thread_step w i net = send_body w i last_send \<Longrightarrow> P"
    and "\<And>opus. i < length (threads w) \<Longrightarrow> threads w ! i = SendLoop (S_Send opus) \<Longrightarrow>
           thread_step w i net =
             set_thread i (SendLoop S_Stamp) (w\<lparr>wire := wire w @ [audio_frame w i opus]\<rparr>) \<Longrightarrow> P"
    and "i < length (threads w) \<Longrightarrow> is_keepalive (threads w ! i) \<Longrightarrow>
         thread_step w i net =
           set_thread i (Keepalive K_Head) (w\<lparr>wire := wire w @ [ping_frame w i]\<rparr>) \<Longrightarrow> P"
  shows P
proof (cases "i < length (threads w)")
  case False
  then show ?thesis by (auto simp: thread_step_def intro: assms(1))
next
  case True
  show ?thesis
  proof (cases "threads w ! i")
    case (Keepalive pc)
    with True have "thread_step w i net = keepalive w i pc net"
      and "is_keepalive (threads w ! i)"
      by (simp_all add: thread_step_def)
    with True keepalive_effect [of w i pc net] show ?thesis
      using assms(1,2,5) by metis
  next
    case (SendLoop pc)
    with True have "thread_step w i net = send_loop w i pc net"
      and "\<not> is_keepalive (threads w ! i)"
      by (simp_all add: thread_step_def)
    with True SendLoop send_loop_effect [of w i pc net] show ?thesis
      using assms(1,2,3,4) by metis
  qed
qed

lemma thread_step_fields [simp]:
  "ws (client (thread_step w i net)) = ws (client w)"
  "codec (client (thread_step w i net)) = codec (client w)"
  "is_running (client (thread_step w i net)) = is_running (client w)"
  "ping_interval (client (thread_step w i net)) = ping_interval (client w)"
  "clock (thread_step w i net) = clock w"
  "blocked_capture (thread_step w i net) = blocked_capture w"
  "captured (thread_step w i net) = captured w"
  "length (threads (thread_step w i net)) = length (threads w)"
  "release_calls (audio (client (thread_step w i net))) = release_calls (audio (client w))"
  "output_stream (audio (client (thread_step w i net))) = output_stream (audio (client w))"
  "input_stream (audio (client (thread_step w i net))) = input_stream (audio (client w))"
  "speaker (audio (client (thread_step w i net))) = speaker (audio (client w))"
  "output_buffer (audio (client (thread_step w i net))) = output_buffer (audio (client w))"
  by (rule thread_step_cases [of w i net]; simp add: frame_simps)+

lemma capture_fields [simp]:
  "ws (client (capture w d)) = ws (client w)"
  "codec (client (capture w d)) = codec (client w)"
  "is_running (client (capture w d)) = is_running (client w)"
  "release_calls (audio (client (capture w d))) = release_calls (audio (client w))"
  "output_stream (audio (client (capture w d))) = output_stream (audio (client w))"
  "speaker (audio (client (capture w d))) = speaker (audio (client w))"
  "output_buffer (audio (client (capture w d))) = output_buffer (audio (client w))"
  by (auto simp: capture_def input_callback_Some_iff split: option.splits)

lemma capture_resume_fields [simp]:
  "ws (client (capture_resume w)) = ws (client w)"
  "codec (client (capture_resume w)) = codec (client w)"
  "is_running (client (capture_resume w)) = is_running (client w)"
  "release_calls (audio (client (capture_resume w))) = release_calls (audio (client w))"
  "output_stream (audio (client (capture_resume w))) = output_stream (audio (client w))"
  "speaker (audio (client (capture_resume w))) = speaker (audio (client w))"
  "output_buffer (audio (client (capture_resume w))) = output_buffer (audio (client w))"
  by (auto simp: capture_resume_def input_callback_Some_iff split: option.splits)

section \<open>The client invariant in every world\<close>

lemma client_ok_send_body:
  "client_ok (client w) \<Longrightarrow> client_ok (client (send_body w i last_send))"
  by (rule send_body_cases [of w i last_send])
     (simp_all add: client_ok_def audio_ok_get_input_frame)

lemma client_ok_thread_step:
  "client_ok (client w) \<Longrightarrow> client_ok (client (thread_step w i net))"
  by (rule thread_step_cases [of w i net]) (simp_all add: client_ok_send_body)

lemma client_ok_capture: "client_ok (client w) \<Longrightarrow> client_ok (client (capture w in_data))"
  by (auto simp: capture_def client_ok_def split: option.splits
      intro: inv_intros)

lemma client_ok_capture_resume: "client_ok (client w) \<Longrightarrow> client_ok (client (capture_resume w))"
  by (auto simp: capture_resume_def client_ok_def split: option.splits
      intro: inv_intros)

lemma client_ok_step: "client_ok (client w) \<Longrightarrow> client_ok (client (step loads w e))"
proof (cases e)
  case (Message m dev)
  moreover assume "client_ok (client w)"
  ultimately show ?thesis
    by (auto split: sum.splits intro: inv_intros)
qed (auto simp: client_ok_def client_ok_thread_step [unfolded client_ok_def]
       client_ok_capture [unfolded client_ok_def]
       client_ok_capture_resume [unfolded client_ok_def] audio_ok_release)

lemma reachable_client_ok: "reachable loads oc w \<Longrightarrow> client_ok (client w)"
  by (induction rule: reachable.induct) (simp_all add: client_ok_init client_ok_step)

section \<open>Runs\<close>

lemma exec_append: "exec loads w (es @ es') = exec loads (exec loads w es) es'"
  by (induction es arbitrary: w) simp_all

lemma exec_snoc: "exec loads w (es @ [e]) = step loads (exec loads w es) e"
  by (simp add: exec_append)

lemma reachable_exec: "reachable loads oc w \<Longrightarrow> reachable loads oc (exec loads w es)"
  by (induction es arbitrary: w) (auto intro: reachable.step)

lemma reachable_run: "reachable loads oc (exec loads (init_world oc) es)"
  by (simp add: reachable_exec reachable.init)

lemma reachable_iff_run: "reachable loads oc w \<longleftrightarrow> (\<exists>es. w = exec loads (init_world oc) es)"
proof
  assume "reachable loads oc w"
  then show "\<exists>es. w = exec loads (init_world oc) es"
  proof (induction rule: reachable.induct)
    case init
    have "init_world oc = exec loads (init_world oc) []" by simp
    then show ?case ..
  next
    case (step w e)
    from step.IH obtain es where "w = exec loads (init_world oc) es" ..
    then have "step loads w e = exec loads (init_world oc) (es @ [e])"
      by (simp add: exec_snoc)
    then show ?case ..
  qed
qed (auto simp: reachable_run)

lemma threads_step:
  "length (threads (step loads w e)) = length (threads w) + (if e = Open then 2 else 0)"
  by (cases e) (auto split: sum.splits)

lemma threads_exec:
  "length (threads (exec loads w es)) = length (threads w) + 2 * count_list es Open"
  by (induction es arbitrary: w) (simp_all add: threads_step)

section \<open>Bounded buffers\<close>

text \<open>
  C4. In every run both buffers stay within \<open>MAX_QUEUE_SIZE\<close>: the capture queue
  never holds more than 30 frames and the playback deque never more than 30 elements,
  whatever the microphone, the peer and the scheduler do.
\<close>

theorem buffers_bounded:
  "length (q_items (input_queue (audio (client (exec loads (init_world oc) es))))) \<le> MAX_QUEUE_SIZE \<and>
   length (d_items (output_buffer (audio (client (exec loads (init_world oc) es))))) \<le> MAX_QUEUE_SIZE"
  using reachable_client_ok [OF reachable_run [of loads oc es]]
  by (simp add: client_ok_def audio_ok_def q_ok_def d_ok_def)

section \<open>Failed transmissions\<close>

text \<open>
  C35. A transmission that raises never marks the connection as failed. A failed audio
  frame ends the send thread: it leaves its loop, the frame it held is lost, and nothing
  reconnects. A failed ping is only logged: the keepalive thread returns to the head of
  its loop. In both cases the world is otherwise unchanged, the flag \<^verbatim>\<open>is_running\<close>
  included, so the other loops go on.
\<close>

theorem transmission_failures:
  assumes "i < length (threads w)"
  shows "(threads w ! i = SendLoop (S_Send opus) \<longrightarrow>
            step loads w (Step i (Some err)) = w\<lparr>threads := (threads w)[i := SendLoop S_Done]\<rparr>) \<and>
         (threads w ! i = Keepalive (K_Sleep wake) \<and> wake \<le> clock w \<longrightarrow>
            step loads w (Step i (Some err)) = w\<lparr>threads := (threads w)[i := Keepalive K_Head]\<rparr>) \<and>
         is_running (client (step loads w (Step i (Some err)))) = is_running (client w)"
proof (intro conjI impI)
  show "is_running (client (step loads w (Step i (Some err)))) = is_running (client w)"
    by simp
qed (use assms in \<open>auto simp: thread_step_def send_frame_failed set_thread_def ws_send_def
    split: option.splits\<close>)

theorem transmission_failures_witness:
  "threads (exec (\<lambda>s. None) (init_world loopback_codec) (take 8 steady_run)) ! 0 =
     SendLoop (S_Send pcm0) \<and>
   threads (step (\<lambda>s. None) (exec (\<lambda>s. None) (init_world loopback_codec) (take 8 steady_run))
     (Step 0 (Some WebSocketException))) = [SendLoop S_Done, Keepalive K_Head] \<and>
   threads (exec (\<lambda>s. None) (init_world loopback_codec) [Open, Step 1 None, Tick 25]) ! 1 =
     Keepalive (K_Sleep 25) \<and>
   clock (exec (\<lambda>s. None) (init_world loopback_codec) [Open, Step 1 None, Tick 25]) = 25 \<and>
   threads (step (\<lambda>s. None)
     (exec (\<lambda>s. None) (init_world loopback_codec) [Open, Step 1 None, Tick 25])
     (Step 1 (Some WebSocketException))) = [SendLoop S_Start, Keepalive K_Head] \<and>
   is_running (client (step (\<lambda>s. None)
     (exec (\<lambda>s. None) (init_world loopback_codec) [Open, Step 1 None, Tick 25])
     (Step 1 (Some WebSocketException))))"
  using transmission_failures
    [of 0 "exec (\<lambda>s. None) (init_world loopback_codec) (take 8 steady_run)" pcm0 "\<lambda>s. None"
        WebSocketException 0]
    transmission_failures
    [of 1 "exec (\<lambda>s. None) (init_world loopback_codec) [Open, Step 1 None, Tick 25]" pcm0
        "\<lambda>s. None" WebSocketException 25]
  by (simp add: steady_run_def run_defs)

section \<open>A stalled microphone callback\<close>

lemma capture_resume_full:
  "q_full (input_queue (audio (client w))) \<Longrightarrow> capture_resume w = w"
  by (simp add: capture_resume_def input_callback_def put_def split: option.splits)

text \<open>
  A microphone callback that is blocked on the full capture queue stays blocked
  until a send thread takes a frame; the next time it is scheduled it then returns,
  and its block enters the queue behind the others.
\<close>

lemma blocked_capture_resumes:
  assumes "blocked_capture w = Some d" and "client_ok (client w)"
    and "q_full (input_queue (audio (client w)))"
    and "i < length (threads w)" and "threads w ! i = SendLoop (S_Body last_send)"
  shows "exec loads w [CaptureResume] = w \<and>
         blocked_capture (exec loads w [Step i net, CaptureResume]) = None \<and>
         captured (exec loads w [Step i net, CaptureResume]) = captured w @ [d] \<and>
         q_items (input_queue (audio (client (exec loads w [Step i net, CaptureResume])))) =
           tl (q_items (input_queue (audio (client w)))) @ [d]"
proof -
  from assms(2,3) obtain x xs where q: "q_items (input_queue (audio (client w))) = x # xs"
    and len: "length xs < q_maxsize (input_queue (audio (client w)))"
    by (cases "q_items (input_queue (audio (client w)))")
       (auto simp: client_ok_def audio_ok_def q_ok_def q_full_def)
  let ?w = "thread_step w i net"
  from assms(4,5) have "?w = send_body w i last_send"
    by (simp add: thread_step_def)
  with q assms(1) have "blocked_capture ?w = Some d" and "captured ?w = captured w"
    and "input_queue (audio (client ?w)) = (input_queue (audio (client w)))\<lparr>q_items := xs\<rparr>"
    by (simp_all add: get_input_frame_Cons)
  with len q assms(3) show ?thesis
    by (simp add: capture_resume_full capture_resume_def input_callback_def put_def q_full_def)
qed

end
