(* ===== verification/Pacing.thy ===== *)
theory Pacing
  imports Engine
begin

text \<open>
  The pacing discipline of \<^verbatim>\<open>_send_loop\<close>: in every reachable world, the audio frames
  that one send thread has put on the wire are at least one frame period apart. The
  invariant \<open>pace_ok\<close> relates, for every send thread, the program counter and its
  \<^verbatim>\<open>last_send\<close> to the clock and to the times of the frames the thread has sent.
  It follows that a thread has sent at most \<open>T / frame_period + 1\<close> frames by time
  \<open>T\<close>. The period is a lower bound only.
\<close>

section \<open>Definitions\<close>

definition timed :: "seconds \<Rightarrow> wire_frame list \<Rightarrow> bool" where
  "timed now fs \<longleftrightarrow> (\<forall>f \<in> set fs. fst f \<le> now)"

definition wire_timed :: "world \<Rightarrow> bool" where
  "wire_timed w \<longleftrightarrow> timed (clock w) (wire w)"

definition binary_by :: "nat \<Rightarrow> wire_frame \<Rightarrow> bool" where
  "binary_by i f \<longleftrightarrow> fst (snd f) = i \<and> fst (snd (snd f)) = OPCODE_BINARY"

definition send_times :: "nat \<Rightarrow> wire_frame list \<Rightarrow> seconds list" where
  "send_times i fs = map fst (filter (binary_by i) fs)"

definition paced :: "seconds list \<Rightarrow> bool" where
  "paced ts \<longleftrightarrow> sorted_wrt (\<lambda>a b. a + frame_period \<le> b) ts"

fun pc_paced :: "seconds \<Rightarrow> seconds list \<Rightarrow> send_pc \<Rightarrow> bool" where
  "pc_paced now ts (S_Head last_send) = (\<forall>t \<in> set ts. t \<le> last_send)"
| "pc_paced now ts (S_Sleep last_send wake) =
     (last_send + frame_period \<le> wake \<and> (\<forall>t \<in> set ts. t \<le> last_send))"
| "pc_paced now ts (S_Body last_send) =
     (last_send + frame_period \<le> now \<and> (\<forall>t \<in> set ts. t \<le> last_send))"
| "pc_paced now ts (S_Send opus_frame) = (\<forall>t \<in> set ts. t + frame_period \<le> now)"
| "pc_paced now ts pc = True"

definition pace_ok :: "world \<Rightarrow> bool" where
  "pace_ok w \<longleftrightarrow>
     wire_timed w \<and>
     (\<forall>i. paced (send_times i (wire w))) \<and>
     (\<forall>i < length (threads w). \<forall>pc. threads w ! i = SendLoop pc \<longrightarrow>
        pc_paced (clock w) (send_times i (wire w)) pc)"

text \<open>Time starts at zero: neither the clock nor a frame on the wire is earlier.\<close>

definition epoch_ok :: "world \<Rightarrow> bool" where
  "epoch_ok w \<longleftrightarrow> 0 \<le> clock w \<and> (\<forall>f \<in> set (wire w). 0 \<le> fst f)"

section \<open>Timed frames\<close>

lemma timed_Nil [simp]: "timed now []"
  by (simp add: timed_def)

lemma timed_snoc [simp]: "timed now (fs @ [f]) \<longleftrightarrow> timed now fs \<and> fst f \<le> now"
  by (auto simp: timed_def)

lemma timed_mono: "timed now fs \<Longrightarrow> now \<le> now' \<Longrightarrow> timed now' fs"
  by (auto simp: timed_def intro: order_trans)

section \<open>Send times\<close>

lemma send_times_Nil [simp]: "send_times i [] = []"
  by (simp add: send_times_def)

lemma send_times_snoc_binary [simp]:
  "send_times j (fs @ [(t, i, OPCODE_BINARY, d)]) =
     (if j = i then send_times j fs @ [t] else send_times j fs)"
  by (simp add: send_times_def binary_by_def)

lemma send_times_snoc_ping [simp]:
  "send_times j (fs @ [(t, i, OPCODE_PING, d)]) = send_times j fs"
  by (simp add: send_times_def binary_by_def)

lemma send_times_timed: "wire_timed w \<Longrightarrow> t \<in> set (send_times i (wire w)) \<Longrightarrow> t \<le> clock w"
  by (auto simp: wire_timed_def timed_def send_times_def)

lemma paced_Nil [simp]: "paced []"
  by (simp add: paced_def)

lemma paced_snoc: "paced (ts @ [t]) \<longleftrightarrow> paced ts \<and> (\<forall>s \<in> set ts. s + frame_period \<le> t)"
  by (simp add: paced_def sorted_wrt_snoc)

lemma pc_paced_mono: "pc_paced now ts pc \<Longrightarrow> now \<le> now' \<Longrightarrow> pc_paced now' ts pc"
  by (cases pc) (auto intro: order_trans)


section \<open>Each event keeps the pacing invariant\<close>

lemma pace_okI:
  assumes "wire_timed w"
    and "\<And>i. paced (send_times i (wire w))"
    and "\<And>i pc. i < length (threads w) \<Longrightarrow> threads w ! i = SendLoop pc \<Longrightarrow>
           pc_paced (clock w) (send_times i (wire w)) pc"
  shows "pace_ok w"
  using assms by (simp add: pace_ok_def)

lemma pace_ok_timed: "pace_ok w \<Longrightarrow> wire_timed w"
  by (simp add: pace_ok_def)

lemma pace_ok_paced: "pace_ok w \<Longrightarrow> paced (send_times i (wire w))"
  by (simp add: pace_ok_def)

lemma pace_ok_pc:
  "pace_ok w \<Longrightarrow> i < length (threads w) \<Longrightarrow> threads w ! i = SendLoop pc \<Longrightarrow>
   pc_paced (clock w) (send_times i (wire w)) pc"
  by (simp add: pace_ok_def)

lemma pace_ok_cong:
  "wire w' = wire w \<Longrightarrow> threads w' = threads w \<Longrightarrow> clock w' = clock w \<Longrightarrow>
   pace_ok w' = pace_ok w"
  by (simp add: pace_ok_def wire_timed_def)

lemma pace_ok_init: "pace_ok (init_world oc)"
  by (simp add: pace_ok_def wire_timed_def)

lemma pace_ok_tick:
  assumes "pace_ok w" and "0 \<le> d"
  shows "pace_ok (w\<lparr>clock := clock w + d\<rparr>)"
proof (rule pace_okI)
  from assms show "wire_timed (w\<lparr>clock := clock w + d\<rparr>)"
    by (auto simp: wire_timed_def dest!: pace_ok_timed intro: timed_mono)
next
  fix i
  from assms show "paced (send_times i (wire (w\<lparr>clock := clock w + d\<rparr>)))"
    by (simp add: pace_ok_paced)
next
  fix i pc
  assume "i < length (threads (w\<lparr>clock := clock w + d\<rparr>))"
    and "threads (w\<lparr>clock := clock w + d\<rparr>) ! i = SendLoop pc"
  with assms(1) have "pc_paced (clock w) (send_times i (wire w)) pc"
    by (simp add: pace_ok_pc)
  with assms(2) show "pc_paced (clock (w\<lparr>clock := clock w + d\<rparr>))
      (send_times i (wire (w\<lparr>clock := clock w + d\<rparr>))) pc"
    by (auto intro: pc_paced_mono)
qed

lemma pace_ok_on_open:
  assumes "pace_ok w"
  shows "pace_ok (on_open w)"
proof (rule pace_okI)
  fix i pc
  assume i: "i < length (threads (on_open w))" and pc: "threads (on_open w) ! i = SendLoop pc"
  show "pc_paced (clock (on_open w)) (send_times i (wire (on_open w))) pc"
  proof (cases "i < length (threads w)")
    case True
    with pc assms show ?thesis by (simp add: nth_append pace_ok_pc)
  next
    case False
    with i pc have "pc = S_Start"
      by (auto simp: nth_append less_Suc_eq nth_Cons split: nat.splits if_splits)
    then show ?thesis by simp
  qed
qed (use assms in \<open>simp_all add: pace_ok_paced wire_timed_def pace_ok_timed [unfolded wire_timed_def]\<close>)

lemma pace_ok_set_thread:
  assumes ok: "pace_ok w"
    and new: "\<And>pc. t = SendLoop pc \<Longrightarrow> pc_paced (clock w) (send_times i (wire w)) pc"
  shows "pace_ok (set_thread i t w)"
proof (rule pace_okI)
  fix j pc
  assume j: "j < length (threads (set_thread i t w))"
    and pc: "threads (set_thread i t w) ! j = SendLoop pc"
  show "pc_paced (clock (set_thread i t w)) (send_times j (wire (set_thread i t w))) pc"
  proof (cases "j = i")
    case True
    with j pc new show ?thesis by simp
  next
    case False
    with j pc ok show ?thesis by (simp add: pace_ok_pc)
  qed
qed (use ok in \<open>simp_all add: pace_ok_paced wire_timed_def pace_ok_timed [unfolded wire_timed_def]\<close>)

lemma pace_ok_ping:
  assumes "pace_ok w"
  shows "pace_ok (set_thread i (Keepalive K_Head) (w\<lparr>wire := wire w @ [ping_frame w i]\<rparr>))"
proof -
  have "pace_ok (w\<lparr>wire := wire w @ [ping_frame w i]\<rparr>)"
  proof (rule pace_okI)
    from assms show "wire_timed (w\<lparr>wire := wire w @ [ping_frame w i]\<rparr>)"
      by (auto simp: wire_timed_def ping_frame_def dest!: pace_ok_timed)
  qed (use assms in \<open>simp_all add: ping_frame_def pace_ok_paced pace_ok_pc\<close>)
  then show ?thesis
    by (rule pace_ok_set_thread) simp
qed

lemma pace_ok_dequeued: "pace_ok (dequeued w) = pace_ok w"
  by (rule pace_ok_cong) simp_all

lemma pace_ok_sent:
  assumes ok: "pace_ok w" and i: "i < length (threads w)"
    and send: "threads w ! i = SendLoop (S_Send opus)"
  shows "pace_ok (set_thread i (SendLoop S_Stamp) (w\<lparr>wire := wire w @ [audio_frame w i opus]\<rparr>))"
    (is "pace_ok ?w")
proof (rule pace_okI)
  from ok show "wire_timed ?w"
    by (auto simp: wire_timed_def audio_frame_def dest!: pace_ok_timed)
next
  fix j
  from pace_ok_pc [OF ok i send]
  have "\<forall>t \<in> set (send_times i (wire w)). t + frame_period \<le> clock w"
    by simp
  with ok show "paced (send_times j (wire ?w))"
    by (simp add: paced_snoc pace_ok_paced audio_frame_def)
next
  fix j pc
  assume j: "j < length (threads ?w)" and pc: "threads ?w ! j = SendLoop pc"
  show "pc_paced (clock ?w) (send_times j (wire ?w)) pc"
  proof (cases "j = i")
    case True
    with j pc show ?thesis by simp
  next
    case False
    with j pc ok show ?thesis by (simp add: pace_ok_pc audio_frame_def)
  qed
qed

lemma pace_ok_send_body:
  assumes "pace_ok w" and "i < length (threads w)"
    and "threads w ! i = SendLoop (S_Body last_send)"
  shows "pace_ok (send_body w i last_send)"
proof -
  from pace_ok_pc [OF assms]
  have "pc_paced (clock w) (send_times i (wire w)) (S_Head last_send)"
    and "pc_paced (clock w) (send_times i (wire w)) (S_Send opus)" for opus
    by (simp, fastforce)
  with assms(1) show ?thesis
    by (rule_tac send_body_cases [of w i last_send])
       (auto simp: pace_ok_dequeued intro!: pace_ok_set_thread)
qed

lemma pace_ok_send_frame:
  assumes "pace_ok w" and "i < length (threads w)"
    and "threads w ! i = SendLoop (S_Send opus)"
  shows "pace_ok (send_frame w i opus net)"
  using send_frame_effect [of w i opus net] assms
  by (auto simp: pace_ok_sent intro!: pace_ok_set_thread)

lemma pace_ok_send_head:
  assumes "pace_ok w" and "i < length (threads w)"
    and "threads w ! i = SendLoop (S_Head last_send)"
  shows "pace_ok (send_head w i last_send)"
proof -
  from pace_ok_pc [OF assms] have "\<forall>t \<in> set (send_times i (wire w)). t \<le> last_send"
    by simp
  with assms(1) show ?thesis
    by (auto simp: send_head_def Let_def intro!: pace_ok_set_thread)
qed

lemma pace_ok_send_loop:
  assumes ok: "pace_ok w" and i: "i < length (threads w)" and pc: "threads w ! i = SendLoop pc"
  shows "pace_ok (send_loop w i pc net)"
proof (cases pc)
  case S_Start
  with ok show ?thesis
    by (auto intro!: pace_ok_set_thread dest: send_times_timed [OF pace_ok_timed])
next
  case (S_Head last_send)
  with assms show ?thesis by (simp add: pace_ok_send_head)
next
  case (S_Sleep last_send wake)
  with pace_ok_pc [OF assms]
  have "last_send + frame_period \<le> wake" "\<forall>t \<in> set (send_times i (wire w)). t \<le> last_send"
    by simp_all
  with ok S_Sleep show ?thesis
    by (auto intro!: pace_ok_set_thread)
next
  case (S_Body last_send)
  with assms show ?thesis by (simp add: pace_ok_send_body)
next
  case (S_Send opus)
  with assms show ?thesis by (simp add: pace_ok_send_frame)
next
  case S_Stamp
  with ok show ?thesis
    by (auto intro!: pace_ok_set_thread dest: send_times_timed [OF pace_ok_timed])
next
  case S_Done
  with ok show ?thesis by simp
qed

lemma pace_ok_keepalive:
  assumes "pace_ok w"
  shows "pace_ok (keepalive w i pc net)"
proof -
  from assms have "pace_ok (set_thread i t w)" if "is_keepalive t" for t
    using that by (intro pace_ok_set_thread) auto
  with assms keepalive_effect [of w i pc net] show ?thesis
    by (auto simp: pace_ok_ping)
qed

lemma pace_ok_thread_step: "pace_ok w \<Longrightarrow> pace_ok (thread_step w i net)"
  by (auto simp: thread_step_def pace_ok_send_loop pace_ok_keepalive split: thread.splits)

lemma pace_ok_client [simp]: "pace_ok (w\<lparr>client := c\<rparr>) = pace_ok w"
  by (rule pace_ok_cong) simp_all

lemma pace_ok_capture [simp]: "pace_ok (capture w d) = pace_ok w"
  by (rule pace_ok_cong) simp_all

lemma pace_ok_capture_resume [simp]: "pace_ok (capture_resume w) = pace_ok w"
  by (rule pace_ok_cong) simp_all

lemma pace_ok_step: "pace_ok w \<Longrightarrow> pace_ok (step loads w e)"
proof (cases e)
  case (Tick d)
  moreover assume "pace_ok w"
  ultimately show ?thesis by (simp add: pace_ok_tick)
next
  case Open
  moreover assume "pace_ok w"
  ultimately show ?thesis by (simp add: pace_ok_on_open)
next
  case (Step i net)
  moreover assume "pace_ok w"
  ultimately show ?thesis by (simp add: pace_ok_thread_step)
qed (simp_all split: sum.splits)

theorem reachable_pace_ok: "reachable loads oc w \<Longrightarrow> pace_ok w"
  by (induction rule: reachable.induct) (simp_all add: pace_ok_init pace_ok_step)

section \<open>The number of frames in a given time\<close>

lemma epoch_ok_cong: "wire w' = wire w \<Longrightarrow> clock w' = clock w \<Longrightarrow> epoch_ok w' = epoch_ok w"
  by (simp add: epoch_ok_def)

lemma epoch_ok_thread_step: "epoch_ok w \<Longrightarrow> epoch_ok (thread_step w i net)"
  by (rule thread_step_cases [of w i net])
     (auto simp: epoch_ok_def audio_frame_def ping_frame_def)

lemma epoch_ok_step: "epoch_ok w \<Longrightarrow> epoch_ok (step loads w e)"
  by (cases e)
     (auto simp: epoch_ok_thread_step epoch_ok_cong [of "capture w _" w]
        epoch_ok_cong [of "capture_resume w" w] epoch_ok_cong [of "on_open w" w]
        epoch_ok_cong [of "w\<lparr>client := _\<rparr>" w] split: sum.splits,
      auto simp: epoch_ok_def)

lemma reachable_epoch_ok: "reachable loads oc w \<Longrightarrow> epoch_ok w"
  by (induction rule: reachable.induct) (simp_all add: epoch_ok_step, simp add: epoch_ok_def)

lemma paced_span:
  "paced ts \<Longrightarrow> ts \<noteq> [] \<Longrightarrow> hd ts + real (length ts - 1) * frame_period \<le> last ts"
proof (induction ts)
  case Nil
  then show ?case by simp
next
  case (Cons t ts)
  show ?case
  proof (cases "ts = []")
    case True
    then show ?thesis by simp
  next
    case False
    then obtain n where n: "length ts = Suc n"
      by (cases ts) simp_all
    from False Cons.prems have "t + frame_period \<le> hd ts" and "paced ts"
      by (simp_all add: paced_def)
    with Cons.IH False n have "t + frame_period + real n * frame_period \<le> last ts"
      by simp
    with False n show ?thesis
      by (simp add: algebra_simps)
  qed
qed

lemma send_times_epoch:
  "epoch_ok w \<Longrightarrow> t \<in> set (send_times i (wire w)) \<Longrightarrow> 0 \<le> t"
  by (auto simp: epoch_ok_def send_times_def)

text \<open>
  C17. At most one frame per period: by the time \<open>T\<close> on the clock, a send thread has
  handed at most \<open>T / frame_period + 1\<close> audio frames to the transport.
\<close>

theorem send_rate_bounded:
  "(real (length (send_times i (wire (exec loads (init_world oc) es)))) - 1) * frame_period
     \<le> clock (exec loads (init_world oc) es)"
proof (cases "send_times i (wire (exec loads (init_world oc) es)) = []")
  case True
  with reachable_epoch_ok [OF reachable_run [of loads oc es]] show ?thesis
    by (simp add: epoch_ok_def frame_period_value)
next
  case False
  let ?w = "exec loads (init_world oc) es" and ?ts = "send_times i (wire (exec loads (init_world oc) es))"
  have w: "pace_ok ?w" "epoch_ok ?w"
    by (rule reachable_pace_ok [OF reachable_run], rule reachable_epoch_ok [OF reachable_run])
  from False have "hd ?ts \<in> set ?ts" and "last ?ts \<in> set ?ts" by simp_all
  with w have "0 \<le> hd ?ts" and "last ?ts \<le> clock ?w"
    by (auto dest: send_times_epoch send_times_timed [OF pace_ok_timed])
  moreover from False obtain n where "length ?ts = Suc n"
    by (cases ?ts) simp_all
  ultimately show ?thesis
    using paced_span [OF pace_ok_paced [OF w(1)] False] by simp
qed

section \<open>The cadence of one send thread\<close>

lemma steady_run_wire:
  "wire (exec loads (init_world loopback_codec) steady_run) =
     [(3 / 50, 0, OPCODE_BINARY, Bytes pcm0), (3 / 25, 0, OPCODE_BINARY, Bytes pcm1)]"
  by (simp add: steady_run_def run_defs)

text \<open>
  C1. Pacing: in every run, two audio frames that the same send thread has handed to
  the transport are at least one frame period (60 ms) apart, whatever the scheduling of
  the threads, the arrival of captured blocks and the events of the connection.
\<close>

theorem send_loop_paced:
  assumes "j < k" and "k < length (wire (exec loads (init_world oc) es))"
    and "wire (exec loads (init_world oc) es) ! j = (t, i, OPCODE_BINARY, d)"
    and "wire (exec loads (init_world oc) es) ! k = (t', i, OPCODE_BINARY, d')"
  shows "t + frame_period \<le> t'"
proof -
  have "paced (send_times i (wire (exec loads (init_world oc) es)))"
    by (rule pace_ok_paced [OF reachable_pace_ok [OF reachable_run]])
  from sorted_wrt_map_filter_nth [OF this [unfolded paced_def send_times_def] assms(1,2)] assms(3,4)
  show ?thesis by (simp add: binary_by_def)
qed

theorem send_loop_paced_witness:
  "wire (exec (\<lambda>s. None) (init_world loopback_codec) steady_run) ! 0 =
     (3 / 50, 0, OPCODE_BINARY, Bytes pcm0) \<and>
   wire (exec (\<lambda>s. None) (init_world loopback_codec) steady_run) ! 1 =
     (3 / 25, 0, OPCODE_BINARY, Bytes pcm1) \<and>
   (3 / 50 :: real) + frame_period \<le> 3 / 25"
  using send_loop_paced [of 0 1 "\<lambda>s. None" loopback_codec steady_run "3 / 50" 0 "Bytes pcm0"
      "3 / 25" "Bytes pcm1"]
  by (simp add: steady_run_wire)

end
