(* ===== verification/Drift.thy ===== *)
theory Drift
  imports Pacing
begin

text \<open>
  Lateness is never made up. \<^verbatim>\<open>_send_loop\<close> counts every period from \<^verbatim>\<open>last_send\<close>,
  the time it reads after a transmission (\<^verbatim>\<open>src/main.py\<close>, line 182), not from the time
  the frame was due. If that reading comes late, every later frame of the thread is
  late by at least as much. \<open>floor_ok L\<close> says of a program counter that the thread
  cannot send before \<open>L + frame_period\<close>; \<open>late_ok\<close> is the invariant that carries it: from
  position \<open>n\<close> of the wire on, no audio frame of thread \<open>i\<close> is earlier than that.
\<close>

section \<open>Definitions\<close>

fun floor_ok :: "seconds \<Rightarrow> seconds \<Rightarrow> send_pc \<Rightarrow> bool" where
  "floor_ok L now S_Start = (L \<le> now)"
| "floor_ok L now (S_Head last_send) = (L \<le> last_send)"
| "floor_ok L now (S_Sleep last_send wake) = (L \<le> last_send \<and> L + frame_period \<le> wake)"
| "floor_ok L now (S_Body last_send) = (L \<le> last_send \<and> L + frame_period \<le> now)"
| "floor_ok L now (S_Send opus_frame) = (L + frame_period \<le> now)"
| "floor_ok L now S_Stamp = (L + frame_period \<le> now)"
| "floor_ok L now S_Done = True"

definition late_ok :: "seconds \<Rightarrow> nat \<Rightarrow> nat \<Rightarrow> world \<Rightarrow> bool" where
  "late_ok L i n w \<longleftrightarrow>
     i < length (threads w) \<and>
     (\<forall>pc. threads w ! i = SendLoop pc \<longrightarrow> floor_ok L (clock w) pc) \<and>
     list_all (\<lambda>f. binary_by i f \<longrightarrow> L + frame_period \<le> fst f) (drop n (wire w))"

section \<open>Each event keeps the invariant\<close>

lemma floor_ok_mono: "floor_ok L now pc \<Longrightarrow> now \<le> now' \<Longrightarrow> floor_ok L now' pc"
  by (cases pc) auto

lemma floor_le: "L + frame_period \<le> x \<Longrightarrow> L \<le> x"
  by (simp add: frame_period_value)

lemma late_ok_less: "late_ok L i n w \<Longrightarrow> i < length (threads w)"
  by (simp add: late_ok_def)

lemma late_ok_cong:
  "wire w' = wire w \<Longrightarrow> threads w' = threads w \<Longrightarrow> clock w' = clock w \<Longrightarrow>
   late_ok L i n w' = late_ok L i n w"
  by (simp add: late_ok_def)

lemma late_ok_pc:
  "late_ok L i n w \<Longrightarrow> threads w ! i = SendLoop pc \<Longrightarrow> floor_ok L (clock w) pc"
  by (simp add: late_ok_def)

lemma late_ok_set_thread:
  assumes "late_ok L i n w"
    and "j = i \<Longrightarrow> (\<forall>pc. t = SendLoop pc \<longrightarrow> floor_ok L (clock w) pc)"
  shows "late_ok L i n (set_thread j t w)"
  using assms by (cases "j = i") (auto simp: late_ok_def)

lemma late_ok_frame:
  assumes "late_ok L i n w" and "binary_by i f \<Longrightarrow> L + frame_period \<le> fst f"
  shows "late_ok L i n (w\<lparr>wire := wire w @ [f]\<rparr>)"
  using assms by (auto simp: late_ok_def list_all_iff dest: in_set_dropD)

lemma late_ok_dequeued [simp]: "late_ok L i n (dequeued w) = late_ok L i n w"
  by (rule late_ok_cong) simp_all

lemma late_ok_tick: "late_ok L i n w \<Longrightarrow> 0 \<le> d \<Longrightarrow> late_ok L i n (w\<lparr>clock := clock w + d\<rparr>)"
  by (auto simp: late_ok_def intro: floor_ok_mono)

lemma late_ok_on_open: "late_ok L i n w \<Longrightarrow> late_ok L i n (on_open w)"
  by (auto simp: late_ok_def nth_append)

lemma late_ok_send_loop:
  assumes ok: "late_ok L i n w" and pc: "threads w ! i = SendLoop pc"
  shows "late_ok L i n (send_loop w i pc net)"
proof (cases pc)
  case (S_Head last_send)
  with late_ok_pc [OF ok pc] ok show ?thesis
    by (auto simp: send_head_def Let_def intro!: late_ok_set_thread)
next
  case (S_Body last_send)
  with late_ok_pc [OF ok pc] ok show ?thesis
    by (rule_tac send_body_cases [of w i last_send]) (auto intro!: late_ok_set_thread)
next
  case (S_Send opus)
  with late_ok_pc [OF ok pc] ok send_frame_effect [of w i opus net] show ?thesis
    by (auto simp: audio_frame_def intro!: late_ok_set_thread late_ok_frame)
qed (use late_ok_pc [OF ok pc] ok in \<open>auto intro!: late_ok_set_thread dest: floor_le\<close>)

lemma late_ok_other_body:
  "late_ok L i n w \<Longrightarrow> j \<noteq> i \<Longrightarrow> late_ok L i n (send_body w j last_send)"
  by (rule send_body_cases [of w j last_send]) (simp_all add: late_ok_set_thread)

lemma late_ok_thread_step:
  assumes "late_ok L i n w"
  shows "late_ok L i n (thread_step w j net)"
proof (cases "j = i")
  case True
  show ?thesis
  proof (cases "threads w ! i")
    case (SendLoop pc)
    with True late_ok_less [OF assms] late_ok_send_loop [OF assms, of pc net] show ?thesis
      by (simp add: thread_step_def)
  next
    case (Keepalive pc)
    with assms True keepalive_effect [of w i pc net] show ?thesis
      by (auto simp: thread_step_def late_ok_def [of L i n w] ping_frame_def binary_by_def
          intro!: late_ok_set_thread late_ok_frame assms)
  qed
next
  case False
  with assms show ?thesis
    by (rule_tac thread_step_cases [of w j net])
       (auto simp: audio_frame_def ping_frame_def binary_by_def late_ok_other_body
          intro!: late_ok_set_thread late_ok_frame)
qed

lemma late_ok_step: "late_ok L i n w \<Longrightarrow> late_ok L i n (step loads w e)"
  by (cases e)
     (simp_all add: late_ok_thread_step late_ok_on_open late_ok_tick
        late_ok_cong [of "capture w _" w] late_ok_cong [of "capture_resume w" w]
        late_ok_cong [of "w\<lparr>client := _\<rparr>" w] split: sum.splits)

lemma late_ok_exec: "late_ok L i n w \<Longrightarrow> late_ok L i n (exec loads w es)"
  by (induction es arbitrary: w) (simp_all add: late_ok_step)

lemma late_ok_stamped:
  assumes "i < length (threads w)" and "threads w ! i = SendLoop S_Stamp" and "0 \<le> late"
  shows "late_ok (clock w + late) i (length (wire w))
           (exec loads w [Tick late, Step i net])"
  using assms by (simp add: late_ok_def thread_step_def)

section \<open>Lateness adds to every later interval\<close>

text \<open>
  In the run \<open>late_run\<close> the clock is read 10 ms after each transmission, and the
  thread sends at 60, 130 and 200 ms.
\<close>

lemma late_run_wire:
  "wire (exec loads (init_world loopback_codec) late_run) =
     [(3 / 50, 0, OPCODE_BINARY, Bytes pcm0), (13 / 100, 0, OPCODE_BINARY, Bytes pcm1),
      (1 / 5, 0, OPCODE_BINARY, Bytes pcm0)]"
  by (simp add: late_run_def run_defs)

lemma late_run_stamp:
  "threads (exec loads (init_world loopback_codec) (take 10 late_run)) =
     [SendLoop S_Stamp, Keepalive K_Head]"
  "clock (exec loads (init_world loopback_codec) (take 10 late_run)) = 3 / 50"
  "length (wire (exec loads (init_world loopback_codec) (take 10 late_run))) = 1"
  by (simp_all add: late_run_def run_defs)

text \<open>
  C33. No drift correction. If a send thread reads the clock into \<^verbatim>\<open>last_send\<close> some
  time \<open>late\<close> after the transmission, then every audio frame the thread sends from
  then on, in any continuation of the run, is at least \<open>late + frame_period\<close> later than
  that transmission: the lateness is added to the interval and never recovered.
\<close>

theorem lateness_never_recovered:
  assumes "i < length (threads w)" and "threads w ! i = SendLoop S_Stamp" and "0 \<le> late"
    and "length (wire w) \<le> k"
    and "k < length (wire (exec loads w (Tick late # Step i net # es)))"
    and "wire (exec loads w (Tick late # Step i net # es)) ! k = (t', i, OPCODE_BINARY, d)"
  shows "clock w + late + frame_period \<le> t'"
proof -
  let ?w = "exec loads w (Tick late # Step i net # es)"
  have "?w = exec loads (exec loads w [Tick late, Step i net]) es"
    by simp
  with late_ok_exec [OF late_ok_stamped [OF assms(1-3), of loads net], of loads es]
  have "late_ok (clock w + late) i (length (wire w)) ?w"
    by (simp only:)
  then have "\<forall>f \<in> set (drop (length (wire w)) (wire ?w)).
      binary_by i f \<longrightarrow> clock w + late + frame_period \<le> fst f"
    by (simp add: late_ok_def list_all_iff)
  moreover from assms(4,5) have "wire ?w ! k \<in> set (drop (length (wire w)) (wire ?w))"
    by (auto simp: in_set_conv_nth intro!: exI [of _ "k - length (wire w)"])
  ultimately show ?thesis
    using assms(6) by (auto simp: binary_by_def)
qed

theorem lateness_never_recovered_witness:
  "threads (exec (\<lambda>s. None) (init_world loopback_codec) (take 10 late_run)) ! 0 = SendLoop S_Stamp \<and>
   wire (exec (\<lambda>s. None) (init_world loopback_codec) late_run) ! 1 =
     (13 / 100, 0, OPCODE_BINARY, Bytes pcm1) \<and>
   (3 / 50 :: real) + 1 / 100 + frame_period \<le> 13 / 100"
proof -
  let ?w = "exec (\<lambda>s. None) (init_world loopback_codec) (take 10 late_run)"
  have run: "exec (\<lambda>s. None) ?w (Tick (1 / 100) # Step 0 None # drop 12 late_run) =
      exec (\<lambda>s. None) (init_world loopback_codec) late_run"
    by (simp only: exec_append [symmetric]) (simp add: late_run_def)
  from lateness_never_recovered
    [of 0 ?w "1 / 100" 1 "\<lambda>s. None" None "drop 12 late_run" "13 / 100" "Bytes pcm1"]
  show ?thesis
    by (simp only: run) (simp add: late_run_stamp late_run_wire)
qed

end
