(* ===== verification/Heartbeat.thy ===== *)
theory Heartbeat
  imports Pacing
begin

text \<open>
  The keepalive of \<^verbatim>\<open>_keepalive\<close> (\<^verbatim>\<open>src/main.py\<close>, lines 187 to 194): the pings of
  one keepalive thread are at least \<^verbatim>\<open>ping_interval\<close> seconds apart. The invariant
  \<open>beat_ok\<close> says that the interval is the 25 seconds the constructor sets, that the
  pings each thread has sent are that far apart, and that a sleeping keepalive thread
  wakes no earlier than one interval after its last ping. As for the send loop, the
  interval is a lower bound: the loop sleeps a full interval after every ping, however
  long the ping took.
\<close>

section \<open>Definitions\<close>

definition ping_by :: "nat \<Rightarrow> wire_frame \<Rightarrow> bool" where
  "ping_by i f \<longleftrightarrow> fst (snd f) = i \<and> fst (snd (snd f)) = OPCODE_PING"

definition ping_times :: "nat \<Rightarrow> wire_frame list \<Rightarrow> seconds list" where
  "ping_times i fs = map fst (filter (ping_by i) fs)"

definition spaced :: "seconds \<Rightarrow> seconds list \<Rightarrow> bool" where
  "spaced d ts \<longleftrightarrow> sorted_wrt (\<lambda>a b. a + d \<le> b) ts"

fun kpc_ok :: "seconds list \<Rightarrow> keep_pc \<Rightarrow> bool" where
  "kpc_ok ts (K_Sleep wake) = (\<forall>t \<in> set ts. t + 25 \<le> wake)"
| "kpc_ok ts pc = True"

definition beat_ok :: "world \<Rightarrow> bool" where
  "beat_ok w \<longleftrightarrow>
     ping_interval (client w) = 25 \<and>
     (\<forall>i. spaced 25 (ping_times i (wire w))) \<and>
     (\<forall>i < length (threads w). \<forall>pc. threads w ! i = Keepalive pc \<longrightarrow>
        kpc_ok (ping_times i (wire w)) pc)"

text \<open>A run in which the keepalive thread of one session sends two pings.\<close>

definition ping_run :: "event list" where
  "ping_run =
     [Open, Step 1 None, Tick 25, Step 1 None, Step 1 None, Tick 25, Step 1 None]"

section \<open>Ping times\<close>

lemma ping_times_Nil [simp]: "ping_times i [] = []"
  by (simp add: ping_times_def)

lemma ping_times_snoc_ping [simp]:
  "ping_times j (fs @ [(t, i, OPCODE_PING, d)]) =
     (if j = i then ping_times j fs @ [t] else ping_times j fs)"
  by (simp add: ping_times_def ping_by_def)

lemma ping_times_snoc_binary [simp]:
  "ping_times j (fs @ [(t, i, OPCODE_BINARY, d)]) = ping_times j fs"
  by (simp add: ping_times_def ping_by_def)

lemma ping_times_timed: "wire_timed w \<Longrightarrow> t \<in> set (ping_times i (wire w)) \<Longrightarrow> t \<le> clock w"
  by (auto simp: wire_timed_def timed_def ping_times_def)

lemma spaced_snoc: "spaced d (ts @ [t]) \<longleftrightarrow> spaced d ts \<and> (\<forall>s \<in> set ts. s + d \<le> t)"
  by (simp add: spaced_def sorted_wrt_snoc)

section \<open>Each event keeps the invariant\<close>

lemma beat_ok_cong:
  "wire w' = wire w \<Longrightarrow> threads w' = threads w \<Longrightarrow>
   ping_interval (client w') = ping_interval (client w) \<Longrightarrow> beat_ok w' = beat_ok w"
  by (simp add: beat_ok_def)

lemma beat_ok_init: "beat_ok (init_world oc)"
  by (simp add: beat_ok_def spaced_def)

lemma beat_okI:
  assumes "ping_interval (client w) = 25"
    and "\<And>i. spaced 25 (ping_times i (wire w))"
    and "\<And>i pc. i < length (threads w) \<Longrightarrow> threads w ! i = Keepalive pc \<Longrightarrow>
           kpc_ok (ping_times i (wire w)) pc"
  shows "beat_ok w"
  using assms by (simp add: beat_ok_def)

lemma beat_ok_pc:
  "beat_ok w \<Longrightarrow> i < length (threads w) \<Longrightarrow> threads w ! i = Keepalive pc \<Longrightarrow>
   kpc_ok (ping_times i (wire w)) pc"
  by (simp add: beat_ok_def)

lemma beat_ok_set_thread:
  assumes ok: "beat_ok w"
    and new: "\<And>pc. t = Keepalive pc \<Longrightarrow> kpc_ok (ping_times i (wire w)) pc"
  shows "beat_ok (set_thread i t w)"
proof (rule beat_okI)
  fix j pc
  assume "j < length (threads (set_thread i t w))"
    and "threads (set_thread i t w) ! j = Keepalive pc"
  with ok new show "kpc_ok (ping_times j (wire (set_thread i t w))) pc"
    by (cases "j = i") (simp_all add: beat_ok_pc)
qed (use ok in \<open>simp_all add: beat_ok_def\<close>)

lemma beat_ok_audio:
  "beat_ok w \<Longrightarrow> beat_ok (w\<lparr>wire := wire w @ [audio_frame w i opus]\<rparr>)"
  by (simp add: beat_ok_def audio_frame_def)

lemma beat_ok_on_open: "beat_ok w \<Longrightarrow> beat_ok (on_open w)"
  by (auto simp: beat_ok_def nth_append less_Suc_eq nth_Cons split: nat.splits)

lemma beat_ok_ping:
  assumes ok: "beat_ok w" and i: "i < length (threads w)"
    and pc: "threads w ! i = Keepalive (K_Sleep wake)" and wake: "wake \<le> clock w"
  shows "beat_ok (set_thread i (Keepalive K_Head) (w\<lparr>wire := wire w @ [ping_frame w i]\<rparr>))"
    (is "beat_ok ?w")
proof (rule beat_okI)
  fix j
  from beat_ok_pc [OF ok i pc] wake
  have "\<forall>t \<in> set (ping_times i (wire w)). t + 25 \<le> clock w"
    by auto
  with ok show "spaced 25 (ping_times j (wire ?w))"
    by (simp add: beat_ok_def ping_frame_def spaced_snoc)
next
  fix j pc'
  assume "j < length (threads ?w)" and "threads ?w ! j = Keepalive pc'"
  with ok show "kpc_ok (ping_times j (wire ?w)) pc'"
    by (cases "j = i") (auto simp: ping_frame_def beat_ok_pc)
qed (use ok in \<open>simp add: beat_ok_def\<close>)

lemma beat_ok_keepalive:
  assumes "beat_ok w" and "wire_timed w" and "i < length (threads w)"
    and "threads w ! i = Keepalive pc"
  shows "beat_ok (keepalive w i pc net)"
proof (cases pc)
  case K_Head
  from assms(1) have "ping_interval (client w) = 25"
    by (simp add: beat_ok_def)
  with assms(1,2) K_Head show ?thesis
    by (auto intro!: beat_ok_set_thread dest: ping_times_timed)
next
  case (K_Sleep wake)
  show ?thesis
  proof (cases "wake \<le> clock w \<and> ws (client w) \<noteq> None \<and> net = None")
    case True
    with beat_ok_ping [OF assms(1,3) assms(4) [unfolded K_Sleep]] K_Sleep show ?thesis
      by (auto simp: ws_send_def ping_frame_def)
  next
    case False
    with assms(1) K_Sleep show ?thesis
      by (auto simp: ws_send_def intro!: beat_ok_set_thread split: option.splits)
  qed
next
  case K_Done
  with assms(1) show ?thesis by simp
qed

lemma beat_ok_quiet: "beat_ok w \<Longrightarrow> \<not> is_keepalive t \<Longrightarrow> beat_ok (set_thread i t w)"
  by (rule beat_ok_set_thread) auto

lemma beat_ok_dequeued [simp]: "beat_ok (dequeued w) = beat_ok w"
  by (rule beat_ok_cong) simp_all

lemma beat_ok_send_body: "beat_ok w \<Longrightarrow> beat_ok (send_body w i last_send)"
  by (rule send_body_cases [of w i last_send]) (simp_all add: beat_ok_quiet)

lemma beat_ok_send_loop:
  assumes "beat_ok w"
  shows "beat_ok (send_loop w i pc net)"
  using assms send_loop_effect [of w i pc net]
  by (auto simp: beat_ok_quiet beat_ok_audio beat_ok_send_body)

lemma beat_ok_thread_step: "beat_ok w \<Longrightarrow> wire_timed w \<Longrightarrow> beat_ok (thread_step w i net)"
  by (auto simp: thread_step_def beat_ok_send_loop beat_ok_keepalive split: thread.splits)

lemma beat_ok_client:
  "ping_interval c = ping_interval (client w) \<Longrightarrow> beat_ok (w\<lparr>client := c\<rparr>) = beat_ok w"
  by (rule beat_ok_cong) simp_all

lemma on_message_ping_interval:
  "on_message loads c m dev = Inr c' \<Longrightarrow> ping_interval c' = ping_interval c"
  by (erule on_message_cases) (simp_all add: frame_simps)

lemma beat_ok_step: "beat_ok w \<Longrightarrow> wire_timed w \<Longrightarrow> beat_ok (step loads w e)"
  by (cases e)
     (auto simp: beat_ok_thread_step beat_ok_on_open beat_ok_client on_message_ping_interval
        beat_ok_cong [of "capture w _" w] beat_ok_cong [of "capture_resume w" w]
        beat_ok_cong [of "w\<lparr>clock := _\<rparr>" w] split: sum.splits)

lemma reachable_beat_ok: "reachable loads oc w \<Longrightarrow> beat_ok w"
  by (induction rule: reachable.induct)
     (simp_all add: beat_ok_init beat_ok_step pace_ok_timed [OF reachable_pace_ok])

section \<open>The interval between two pings\<close>

lemma ping_run_wire:
  "wire (exec loads (init_world loopback_codec) ping_run) =
     [(25, 1, OPCODE_PING, Str ''PING''), (50, 1, OPCODE_PING, Str ''PING'')]"
  by (simp add: ping_run_def run_defs)

text \<open>
  C20. Keepalive interval: in every run, two pings of the same keepalive thread are at
  least 25 seconds apart, whatever the scheduling of the threads, the answers of the
  network and the events of the connection.
\<close>

theorem pings_spaced:
  assumes "j < k" and "k < length (wire (exec loads (init_world oc) es))"
    and "wire (exec loads (init_world oc) es) ! j = (t, i, OPCODE_PING, d)"
    and "wire (exec loads (init_world oc) es) ! k = (t', i, OPCODE_PING, d')"
  shows "t + 25 \<le> t'"
proof -
  have "spaced 25 (ping_times i (wire (exec loads (init_world oc) es)))"
    using reachable_beat_ok [OF reachable_run [of loads oc es]] by (simp add: beat_ok_def)
  from sorted_wrt_map_filter_nth [OF this [unfolded spaced_def ping_times_def] assms(1,2)] assms(3,4)
  show ?thesis by (simp add: ping_by_def)
qed

theorem pings_spaced_witness:
  "wire (exec (\<lambda>s. None) (init_world loopback_codec) ping_run) ! 0 = (25, 1, OPCODE_PING, Str ''PING'') \<and>
   wire (exec (\<lambda>s. None) (init_world loopback_codec) ping_run) ! 1 = (50, 1, OPCODE_PING, Str ''PING'') \<and>
   (25 :: real) + 25 \<le> 50"
  using pings_spaced [of 0 1 "\<lambda>s. None" loopback_codec ping_run 25 1 "Str ''PING''" 50 "Str ''PING''"]
  by (simp add: ping_run_wire)

end
