(* ===== verification/Ordering.thy ===== *)
theory Ordering
  imports Engine
begin

text \<open>
  The order of the outbound stream. The capture queue is first-in first-out between
  the microphone callback and the send loops. The invariant \<open>order_ok\<close> says that what
  a send thread has put on the wire, followed by the frame it holds, is a subsequence
  of the encodings of the frames taken from the queue; \<open>owners_ok\<close> says which thread
  can have sent which frame. It follows that every thread sends in capture order and
  that a single session does so as a whole; a run with a reconnect shows that two
  sessions do not.
\<close>

section \<open>Definitions\<close>

definition fifo_ok :: "world \<Rightarrow> bool" where
  "fifo_ok w \<longleftrightarrow> captured w = taken w @ q_items (input_queue (audio (client w)))"

fun audio_of :: "wire_frame \<Rightarrow> bytes list" where
  "audio_of (t, i, OPCODE_BINARY, Bytes b) = [b]"
| "audio_of (t, i, opc, d) = []"

definition binary_payloads :: "wire_frame list \<Rightarrow> bytes list" where
  "binary_payloads fs = concat (map audio_of fs)"

definition sent_by :: "nat \<Rightarrow> wire_frame \<Rightarrow> bool" where
  "sent_by i f \<longleftrightarrow> fst (snd f) = i"

definition payloads_by :: "nat \<Rightarrow> wire_frame list \<Rightarrow> bytes list" where
  "payloads_by i fs = binary_payloads (filter (sent_by i) fs)"

definition pending :: "world \<Rightarrow> nat \<Rightarrow> bytes list" where
  "pending w i = (if i < length (threads w) then inflight (threads w ! i) else [])"

definition encodings :: "opus_codec \<Rightarrow> bytes list \<Rightarrow> bytes list" where
  "encodings oc pcms = List.map_filter (sendable oc) pcms"

definition order_ok :: "opus_codec \<Rightarrow> world \<Rightarrow> bool" where
  "order_ok oc w \<longleftrightarrow>
     codec (client w) = oc \<and> fifo_ok w \<and>
     (\<forall>i. subseq (payloads_by i (wire w) @ pending w i) (encodings oc (taken w)))"

text \<open>
  Who may have put a frame on the wire: thread \<open>i\<close> exists, and it is a keepalive
  thread if and only if \<open>i\<close> is odd, because \<^verbatim>\<open>_on_open\<close> starts the threads in pairs.
\<close>

definition owners_ok :: "world \<Rightarrow> bool" where
  "owners_ok w \<longleftrightarrow>
     even (length (threads w)) \<and>
     (\<forall>i < length (threads w). is_keepalive (threads w ! i) \<longleftrightarrow> odd i) \<and>
     (\<forall>f \<in> set (wire w). fst (snd f) < length (threads w) \<and>
        (audio_of f \<noteq> [] \<longrightarrow> even (fst (snd f))))"

section \<open>Payloads and encodings\<close>

lemma binary_payloads_simps [simp]:
  "binary_payloads [] = []"
  "binary_payloads (fs @ [(t, i, OPCODE_BINARY, Bytes b)]) = binary_payloads fs @ [b]"
  "binary_payloads (fs @ [(t, i, OPCODE_PING, d)]) = binary_payloads fs"
  by (simp_all add: binary_payloads_def)

lemma payloads_by_simps [simp]:
  "payloads_by j [] = []"
  "payloads_by j (fs @ [(t, i, OPCODE_BINARY, Bytes b)]) =
     (if j = i then payloads_by j fs @ [b] else payloads_by j fs)"
  "payloads_by j (fs @ [(t, i, OPCODE_PING, d)]) = payloads_by j fs"
  by (simp_all add: payloads_by_def sent_by_def)

lemma payloads_by_all:
  "\<forall>f \<in> set fs. audio_of f \<noteq> [] \<longrightarrow> fst (snd f) = i \<Longrightarrow> payloads_by i fs = binary_payloads fs"
  by (induction fs) (auto simp: payloads_by_def binary_payloads_def sent_by_def)

lemma encodings_simps [simp]:
  "encodings oc [] = []"
  "encodings oc (xs @ ys) = encodings oc xs @ encodings oc ys"
  by (simp_all add: encodings_def map_filter_def)

lemma encodings_single:
  "encodings oc [pcm] = (case sendable oc pcm of None \<Rightarrow> [] | Some opus \<Rightarrow> [opus])"
  by (simp add: encodings_def map_filter_def split: option.splits)

lemma encodings_Cons:
  "encodings oc (pcm # pcms) =
     (case sendable oc pcm of None \<Rightarrow> [] | Some opus \<Rightarrow> [opus]) @ encodings oc pcms"
  using encodings_simps(2) [of oc "[pcm]" pcms] by (simp add: encodings_single)

lemma encodings_frames_of:
  "encodings (codec (client w)) (frames_of (fst (get_input_frame (audio (client w))))) =
     frames_of (outgoing w)"
  by (simp add: outgoing_def frames_of_def encodings_single split: option.splits)

lemma subseq_append_left: "subseq (xs @ ys) zs \<Longrightarrow> subseq xs zs"
  by (metis list_emb_append_mono list_emb_Nil append_Nil2 subseq_order.refl subseq_order.trans)

lemma pending_set_thread:
  "pending (set_thread i t w) j =
     (if j = i \<and> i < length (threads w) then inflight t else pending w j)"
  by (simp add: pending_def)

lemma pending_cong: "threads w' = threads w \<Longrightarrow> pending w' = pending w"
  by (rule ext) (simp add: pending_def)

lemma pending_simps [simp]:
  "pending (w\<lparr>client := c\<rparr>) = pending w"
  "pending (w\<lparr>clock := t\<rparr>) = pending w"
  "pending (w\<lparr>wire := fs\<rparr>) = pending w"
  "pending (w\<lparr>blocked_capture := b\<rparr>) = pending w"
  "pending (w\<lparr>captured := xs\<rparr>) = pending w"
  "pending (w\<lparr>taken := ys\<rparr>) = pending w"
  "pending (set_audio a w) = pending w"
  "pending (dequeued w) = pending w"
  by (rule pending_cong, simp)+

lemma fifo_ok_set_thread [simp]: "fifo_ok (set_thread i t w) = fifo_ok w"
  by (simp add: fifo_ok_def)

lemma pending_on_open [simp]: "pending (on_open w) = pending w"
  by (rule ext) (auto simp: pending_def nth_append less_Suc_eq nth_Cons split: nat.splits)

section \<open>Each event keeps the order invariant\<close>

lemma order_okI:
  assumes "codec (client w) = oc" and "fifo_ok w"
    and "\<And>i. subseq (payloads_by i (wire w) @ pending w i) (encodings oc (taken w))"
  shows "order_ok oc w"
  using assms by (simp add: order_ok_def)

lemma order_ok_sub:
  "order_ok oc w \<Longrightarrow> subseq (payloads_by i (wire w) @ pending w i) (encodings oc (taken w))"
  by (simp add: order_ok_def)

lemma order_ok_cong:
  assumes "codec (client w') = codec (client w)" and "wire w' = wire w"
    and "taken w' = taken w" and "captured w' = captured w" and "threads w' = threads w"
    and "input_queue (audio (client w')) = input_queue (audio (client w))"
  shows "order_ok oc w' = order_ok oc w"
  using assms by (simp add: order_ok_def fifo_ok_def pending_cong [of w' w])

lemma order_ok_init: "order_ok oc (init_world oc)"
  by (simp add: order_ok_def fifo_ok_def pending_def)

lemma order_ok_clock [simp]: "order_ok oc (w\<lparr>clock := t\<rparr>) = order_ok oc w"
  by (rule order_ok_cong) simp_all

lemma order_ok_blocked [simp]: "order_ok oc (w\<lparr>blocked_capture := b\<rparr>) = order_ok oc w"
  by (rule order_ok_cong) simp_all

lemma order_ok_on_open [simp]: "order_ok oc (on_open w) = order_ok oc w"
  by (simp add: order_ok_def fifo_ok_def)

lemma order_ok_quiet:
  assumes "order_ok oc w" and "inflight t = []"
  shows "order_ok oc (set_thread i t w)"
proof (rule order_okI)
  fix j
  from order_ok_sub [OF assms(1), of j]
  have "subseq (payloads_by j (wire w)) (encodings oc (taken w))"
    by (rule subseq_append_left)
  with order_ok_sub [OF assms(1), of j] assms(2)
  show "subseq (payloads_by j (wire (set_thread i t w)) @ pending (set_thread i t w) j)
          (encodings oc (taken (set_thread i t w)))"
    by (auto simp: pending_set_thread)
qed (use assms in \<open>simp_all add: order_ok_def fifo_ok_def\<close>)

lemma order_ok_ping:
  "order_ok oc w \<Longrightarrow> order_ok oc (set_thread i (Keepalive K_Head) (w\<lparr>wire := wire w @ [ping_frame w i]\<rparr>))"
proof (rule order_ok_quiet)
  assume "order_ok oc w"
  then show "order_ok oc (w\<lparr>wire := wire w @ [ping_frame w i]\<rparr>)"
    by (simp add: order_ok_def fifo_ok_def ping_frame_def)
qed simp

lemma queue_split:
  "q_items (input_queue a) =
     frames_of (fst (get_input_frame a)) @ q_items (input_queue (snd (get_input_frame a)))"
  by (rule get_input_frame_cases [of a]) (simp_all add: frames_of_def)

lemma fifo_ok_dequeued: "fifo_ok w \<Longrightarrow> fifo_ok (dequeued w)"
  using queue_split [of "audio (client w)"] by (simp add: fifo_ok_def)

lemma order_ok_dequeued:
  assumes "order_ok oc w"
  shows "order_ok oc (dequeued w)"
proof (rule order_okI)
  fix i
  from order_ok_sub [OF assms, of i]
  show "subseq (payloads_by i (wire (dequeued w)) @ pending (dequeued w) i)
          (encodings oc (taken (dequeued w)))"
    by (simp add: subseq_rev_drop_many)
qed (use assms in \<open>simp_all add: order_ok_def fifo_ok_dequeued\<close>)

lemma order_ok_ready:
  assumes ok: "order_ok oc w" and i: "i < length (threads w)"
    and body: "threads w ! i = SendLoop (S_Body last_send)" and out: "outgoing w = Some opus"
  shows "order_ok oc (set_thread i (SendLoop (S_Send opus)) (dequeued w))" (is "order_ok oc ?w")
proof (rule order_okI)
  fix j
  from ok out
  have enc: "encodings oc (frames_of (fst (get_input_frame (audio (client w))))) = [opus]"
    using encodings_frames_of [of w] by (simp add: order_ok_def frames_of_def)
  show "subseq (payloads_by j (wire ?w) @ pending ?w j) (encodings oc (taken ?w))"
  proof (cases "j = i")
    case True
    with i body have "pending w j = []" by (simp add: pending_def)
    with order_ok_sub [OF ok, of j] True i show ?thesis
      by (simp add: enc pending_set_thread list_emb_append_mono)
  next
    case False
    with order_ok_sub [OF ok, of j] show ?thesis
      by (simp add: enc pending_set_thread subseq_rev_drop_many)
  qed
qed (use ok in \<open>simp_all add: order_ok_def fifo_ok_dequeued\<close>)

lemma order_ok_send_body:
  assumes "order_ok oc w" and "i < length (threads w)"
    and "threads w ! i = SendLoop (S_Body last_send)"
  shows "order_ok oc (send_body w i last_send)"
  using assms
  by (rule_tac send_body_cases [of w i last_send])
     (simp_all add: order_ok_ready order_ok_quiet order_ok_dequeued)

lemma order_ok_sent:
  assumes ok: "order_ok oc w" and i: "i < length (threads w)"
    and send: "threads w ! i = SendLoop (S_Send opus)"
  shows "order_ok oc (set_thread i (SendLoop S_Stamp) (w\<lparr>wire := wire w @ [audio_frame w i opus]\<rparr>))"
    (is "order_ok oc ?w")
proof (rule order_okI)
  fix j
  from i send have "pending w i = [opus]" by (simp add: pending_def)
  with order_ok_sub [OF ok, of j] i
  show "subseq (payloads_by j (wire ?w) @ pending ?w j) (encodings oc (taken ?w))"
    by (auto simp: audio_frame_def pending_set_thread)
qed (use ok in \<open>simp_all add: order_ok_def fifo_ok_def\<close>)

lemma order_ok_thread_step: "order_ok oc w \<Longrightarrow> order_ok oc (thread_step w i net)"
  by (rule thread_step_cases [of w i net])
     (simp_all add: order_ok_send_body order_ok_sent order_ok_quiet order_ok_ping)

lemma order_ok_client:
  assumes "order_ok oc w" and "codec c = codec (client w)"
    and "input_queue (audio c) = input_queue (audio (client w))"
  shows "order_ok oc (w\<lparr>client := c\<rparr>)"
  using assms by (simp add: order_ok_def fifo_ok_def)

lemma order_ok_captured:
  assumes "order_ok oc w" and "input_callback (audio (client w)) in_data = Some (a, r)"
  shows "order_ok oc ((set_audio a w)\<lparr>captured := captured w @ [in_data]\<rparr>)"
  using assms
  by (auto simp: order_ok_def fifo_ok_def input_callback_Some_iff)

lemma order_ok_capture: "order_ok oc w \<Longrightarrow> order_ok oc (capture w in_data)"
  by (auto simp: capture_def order_ok_captured split: option.splits)

lemma order_ok_capture_resume: "order_ok oc w \<Longrightarrow> order_ok oc (capture_resume w)"
  using order_ok_captured [of oc w, THEN order_ok_blocked [THEN iffD2]]
  by (auto simp: capture_resume_def split: option.splits)

lemma order_ok_step: "order_ok oc w \<Longrightarrow> order_ok oc (step loads w e)"
proof (cases e)
  case (Message m dev)
  moreover assume "order_ok oc w"
  ultimately show ?thesis
    by (auto split: sum.splits intro!: order_ok_client dest: on_message_frame)
qed (simp_all add: order_ok_thread_step order_ok_capture order_ok_capture_resume order_ok_client)

lemma reachable_order_ok: "reachable loads oc w \<Longrightarrow> order_ok oc w"
  by (induction rule: reachable.induct) (simp_all add: order_ok_init order_ok_step)

lemma order_ok_captured_sub:
  assumes "order_ok oc w"
  shows "subseq (payloads_by i (wire w)) (encodings oc (captured w))"
proof -
  from order_ok_sub [OF assms, of i] have "subseq (payloads_by i (wire w)) (encodings oc (taken w))"
    by (rule subseq_append_left)
  moreover from assms have "captured w = taken w @ q_items (input_queue (audio (client w)))"
    by (simp add: order_ok_def fifo_ok_def)
  ultimately show ?thesis
    by (simp add: subseq_rev_drop_many)
qed

section \<open>Who sent what\<close>

lemma owners_okI:
  assumes "even (length (threads w))"
    and "\<And>i. i < length (threads w) \<Longrightarrow> is_keepalive (threads w ! i) \<longleftrightarrow> odd i"
    and "\<And>f. f \<in> set (wire w) \<Longrightarrow> fst (snd f) < length (threads w)"
    and "\<And>f. f \<in> set (wire w) \<Longrightarrow> audio_of f \<noteq> [] \<Longrightarrow> even (fst (snd f))"
  shows "owners_ok w"
  using assms by (simp add: owners_ok_def)

lemma owners_ok_cong:
  "threads w' = threads w \<Longrightarrow> wire w' = wire w \<Longrightarrow> owners_ok w' = owners_ok w"
  by (simp add: owners_ok_def)

lemma owners_ok_init: "owners_ok (init_world oc)"
  by (simp add: owners_ok_def)

lemma owners_ok_set_thread:
  assumes "owners_ok w" and "i < length (threads w)"
    and "is_keepalive t = is_keepalive (threads w ! i)"
  shows "owners_ok (set_thread i t w)"
  using assms by (auto simp: owners_ok_def nth_list_update)

lemma owners_ok_on_open: "owners_ok w \<Longrightarrow> owners_ok (on_open w)"
  by (rule owners_okI)
     (auto simp: owners_ok_def nth_append less_Suc_eq nth_Cons split: nat.splits)

lemma owners_ok_frame:
  assumes "owners_ok w" and "i < length (threads w)"
    and "audio_of f \<noteq> [] \<Longrightarrow> \<not> is_keepalive (threads w ! i)" and "fst (snd f) = i"
  shows "owners_ok (w\<lparr>wire := wire w @ [f]\<rparr>)"
  using assms by (auto simp: owners_ok_def)

lemma owners_ok_dequeued [simp]: "owners_ok (dequeued w) = owners_ok w"
  by (rule owners_ok_cong) simp_all

lemma owners_ok_thread_step:
  assumes "owners_ok w"
  shows "owners_ok (thread_step w i net)"
proof (rule thread_step_cases [of w i net])
  fix last_send
  assume "i < length (threads w)" and "threads w ! i = SendLoop (S_Body last_send)"
    and "thread_step w i net = send_body w i last_send"
  with assms show ?thesis
    by (rule_tac send_body_cases [of w i last_send]) (simp_all add: owners_ok_set_thread)
next
  fix opus
  assume "i < length (threads w)" and "threads w ! i = SendLoop (S_Send opus)"
    and "thread_step w i net =
      set_thread i (SendLoop S_Stamp) (w\<lparr>wire := wire w @ [audio_frame w i opus]\<rparr>)"
  with assms show ?thesis
    by (auto intro!: owners_ok_set_thread owners_ok_frame simp: audio_frame_def)
next
  assume "i < length (threads w)" and "is_keepalive (threads w ! i)"
    and "thread_step w i net =
      set_thread i (Keepalive K_Head) (w\<lparr>wire := wire w @ [ping_frame w i]\<rparr>)"
  with assms show ?thesis
    by (auto intro!: owners_ok_set_thread owners_ok_frame simp: ping_frame_def)
qed (use assms in \<open>simp_all add: owners_ok_set_thread\<close>)

lemma owners_ok_step: "owners_ok w \<Longrightarrow> owners_ok (step loads w e)"
  by (cases e)
     (simp_all add: owners_ok_thread_step owners_ok_on_open
        owners_ok_cong [of "capture w _" w] owners_ok_cong [of "capture_resume w" w]
        owners_ok_cong [of "w\<lparr>client := _\<rparr>" w] owners_ok_cong [of "w\<lparr>clock := _\<rparr>" w]
        split: sum.splits)

lemma reachable_owners_ok: "reachable loads oc w \<Longrightarrow> owners_ok w"
  by (induction rule: reachable.induct) (simp_all add: owners_ok_init owners_ok_step)

lemma single_sender:
  assumes "owners_ok w" and "length (threads w) \<le> 2"
  shows "payloads_by 0 (wire w) = binary_payloads (wire w)"
proof (rule payloads_by_all, intro ballI impI)
  fix f
  assume "f \<in> set (wire w)" and "audio_of f \<noteq> []"
  with assms(1) have "fst (snd f) < length (threads w)" and "even (fst (snd f))"
    by (simp_all add: owners_ok_def)
  with assms(2) show "fst (snd f) = 0"
    by presburger
qed

lemma single_session_payloads:
  assumes "count_list es Open \<le> 1"
  shows "payloads_by 0 (wire (exec loads (init_world oc) es)) =
           binary_payloads (wire (exec loads (init_world oc) es))"
proof -
  from assms have "length (threads (exec loads (init_world oc) es)) \<le> 2"
    by (simp add: threads_exec)
  with reachable_owners_ok [OF reachable_run [of loads oc es]] show ?thesis
    by (rule single_sender)
qed

section \<open>The outbound stream\<close>

lemma steady_run_order:
  "binary_payloads (wire (exec loads (init_world loopback_codec) steady_run)) = [pcm0, pcm1]"
  "captured (exec loads (init_world loopback_codec) steady_run) = [pcm0, pcm1]"
  by (simp_all add: steady_run_def run_defs binary_payloads_def)

text \<open>
  The capture queue is first-in first-out between the microphone callback and the
  send loops, in every run.
\<close>

lemma capture_queue_fifo:
  "captured (exec loads (init_world oc) es) =
     taken (exec loads (init_world oc) es) @
     q_items (input_queue (audio (client (exec loads (init_world oc) es))))"
  using reachable_order_ok [OF reachable_run [of loads oc es]]
  by (simp add: order_ok_def fifo_ok_def)

text \<open>
  C26. Capture order, from the microphone to the wire. At every moment the frames
  captured so far are the frames the send loops have taken, in the order they took
  them, followed by the frames still in the queue; and the audio frames thread \<open>i\<close>
  has put on the wire are encodings of captured frames, in the order of capture, none
  of them twice. Frames may be missing (not yet sent, not encodable, taken by another
  thread, lost to a failed transmission) but never reordered or repeated.
\<close>

theorem thread_sends_in_capture_order:
  "captured (exec loads (init_world oc) es) =
     taken (exec loads (init_world oc) es) @
     q_items (input_queue (audio (client (exec loads (init_world oc) es)))) \<and>
   subseq (payloads_by i (wire (exec loads (init_world oc) es)))
     (encodings oc (captured (exec loads (init_world oc) es)))"
  using order_ok_captured_sub [OF reachable_order_ok [OF reachable_run [of loads oc es]], of i]
  by (simp add: capture_queue_fifo [symmetric])

text \<open>
  C3. Within a single session (the connection was opened at most once) the whole
  outbound audio stream is in capture order.
\<close>

theorem session_in_capture_order:
  assumes "count_list es Open \<le> 1"
  shows "subseq (binary_payloads (wire (exec loads (init_world oc) es)))
           (encodings oc (captured (exec loads (init_world oc) es)))"
  using order_ok_captured_sub [OF reachable_order_ok [OF reachable_run [of loads oc es]], of 0]
  by (simp add: single_session_payloads [OF assms])

theorem session_in_capture_order_witness:
  "count_list steady_run Open \<le> 1 \<and>
   subseq [pcm0, pcm1] (encodings loopback_codec [pcm0, pcm1])"
  using session_in_capture_order [of steady_run "\<lambda>s. None" loopback_codec]
  by (simp add: steady_run_order) (simp add: steady_run_def)


end
