(* ===== verification/Conservation.thy ===== *)
theory Conservation
  imports Ordering "HOL-Library.Multiset"
begin

text \<open>
  The frames of the outbound stream, counted. Across sessions the order of the wire is
  not the order of capture, because the send threads of earlier sessions go on taking
  frames; what survives every interleaving is the count. \<open>holding\<close> is the multiset of
  encoded frames that send threads hold between the queue and the transport, and
  \<open>conserve_ok\<close> says that the frames on the wire together with the frames held are
  among the encodings of the frames taken from the queue, each as often as it was taken.
  So no thread sends a frame that was not captured, and no frame is sent more often
  than it was captured, whatever the number of threads.
\<close>

section \<open>Definitions\<close>

definition holding :: "world \<Rightarrow> bytes multiset" where
  "holding w = mset (concat (map inflight (threads w)))"

definition conserve_ok :: "opus_codec \<Rightarrow> world \<Rightarrow> bool" where
  "conserve_ok oc w \<longleftrightarrow>
     codec (client w) = oc \<and> fifo_ok w \<and>
     mset (binary_payloads (wire w)) + holding w \<subseteq># mset (encodings oc (taken w))"

section \<open>The frames held by the threads\<close>

lemma concat_update:
  "i < length xs \<Longrightarrow>
   mset (concat (map f (xs[i := t]))) + mset (f (xs ! i)) = mset (concat (map f xs)) + mset (f t)"
  by (induction xs arbitrary: i) (auto split: nat.splits)

lemma holding_set_thread:
  "i < length (threads w) \<Longrightarrow>
   holding (set_thread i t w) + mset (inflight (threads w ! i)) = holding w + mset (inflight t)"
  by (simp add: holding_def set_thread_def concat_update)

lemma holding_quiet: "inflight t = [] \<Longrightarrow> holding (set_thread i t w) \<subseteq># holding w"
proof (cases "i < length (threads w)")
  case True
  assume "inflight t = []"
  with holding_set_thread [OF True, of t] show ?thesis
    by (simp add: mset_subset_eq_exists_conv) (metis add.commute)
next
  case False
  then show ?thesis by (simp add: holding_def set_thread_def list_update_beyond)
qed

lemma holding_cong: "threads w' = threads w \<Longrightarrow> holding w' = holding w"
  by (simp add: holding_def)

lemma holding_simps [simp]:
  "holding (w\<lparr>client := c\<rparr>) = holding w"
  "holding (w\<lparr>clock := t\<rparr>) = holding w"
  "holding (w\<lparr>wire := fs\<rparr>) = holding w"
  "holding (w\<lparr>blocked_capture := b\<rparr>) = holding w"
  "holding (w\<lparr>captured := xs\<rparr>) = holding w"
  "holding (set_audio a w) = holding w"
  "holding (dequeued w) = holding w"
  "holding (on_open w) = holding w"
  "holding (init_world oc) = {#}"
  by (simp_all add: holding_def)

section \<open>Each event keeps the count\<close>

lemma conserve_okI:
  assumes "codec (client w) = oc" and "fifo_ok w"
    and "mset (binary_payloads (wire w)) + holding w \<subseteq># mset (encodings oc (taken w))"
  shows "conserve_ok oc w"
  using assms by (simp add: conserve_ok_def)

lemma conserve_ok_cong:
  assumes "codec (client w') = codec (client w)" and "wire w' = wire w"
    and "taken w' = taken w" and "captured w' = captured w" and "threads w' = threads w"
    and "input_queue (audio (client w')) = input_queue (audio (client w))"
  shows "conserve_ok oc w' = conserve_ok oc w"
  using assms by (simp add: conserve_ok_def fifo_ok_def holding_cong [of w' w])

lemma conserve_ok_init: "conserve_ok oc (init_world oc)"
  by (simp add: conserve_ok_def fifo_ok_def)

lemma conserve_ok_clock [simp]: "conserve_ok oc (w\<lparr>clock := t\<rparr>) = conserve_ok oc w"
  by (rule conserve_ok_cong) simp_all

lemma conserve_ok_blocked [simp]: "conserve_ok oc (w\<lparr>blocked_capture := b\<rparr>) = conserve_ok oc w"
  by (rule conserve_ok_cong) simp_all

lemma conserve_ok_on_open [simp]: "conserve_ok oc (on_open w) = conserve_ok oc w"
  by (simp add: conserve_ok_def fifo_ok_def)

lemma conserve_ok_quiet:
  assumes "conserve_ok oc w" and "inflight t = []"
  shows "conserve_ok oc (set_thread i t w)"
proof (rule conserve_okI)
  from assms(2) have "holding (set_thread i t w) \<subseteq># holding w"
    by (rule holding_quiet)
  then have "mset (binary_payloads (wire w)) + holding (set_thread i t w) \<subseteq>#
             mset (binary_payloads (wire w)) + holding w"
    by (rule subset_mset.add_left_mono)
  also from assms(1) have "\<dots> \<subseteq># mset (encodings oc (taken w))"
    by (simp add: conserve_ok_def)
  finally show "mset (binary_payloads (wire (set_thread i t w))) + holding (set_thread i t w) \<subseteq>#
      mset (encodings oc (taken (set_thread i t w)))"
    by simp
qed (use assms in \<open>simp_all add: conserve_ok_def\<close>)

lemma conserve_ok_dequeued: "conserve_ok oc w \<Longrightarrow> conserve_ok oc (dequeued w)"
  by (auto simp: conserve_ok_def fifo_ok_dequeued intro: subset_mset.add_increasing2)

lemma conserve_ok_ready:
  assumes ok: "conserve_ok oc w" and i: "i < length (threads w)"
    and body: "threads w ! i = SendLoop (S_Body last_send)" and out: "outgoing w = Some opus"
  shows "conserve_ok oc (set_thread i (SendLoop (S_Send opus)) (dequeued w))" (is "conserve_ok oc ?w")
proof (rule conserve_okI)
  from ok out
  have enc: "encodings oc (frames_of (fst (get_input_frame (audio (client w))))) = [opus]"
    using encodings_frames_of [of w] by (simp add: conserve_ok_def frames_of_def)
  from i body holding_set_thread [of i "dequeued w" "SendLoop (S_Send opus)"]
  have "holding ?w = holding w + {#opus#}"
    by simp
  with ok show "mset (binary_payloads (wire ?w)) + holding ?w \<subseteq># mset (encodings oc (taken ?w))"
    by (simp add: conserve_ok_def enc)
qed (use ok in \<open>simp_all add: conserve_ok_def fifo_ok_dequeued\<close>)

lemma conserve_ok_send_body:
  assumes "conserve_ok oc w" and "i < length (threads w)"
    and "threads w ! i = SendLoop (S_Body last_send)"
  shows "conserve_ok oc (send_body w i last_send)"
  using assms
  by (rule_tac send_body_cases [of w i last_send])
     (simp_all add: conserve_ok_ready conserve_ok_quiet conserve_ok_dequeued)

lemma conserve_ok_sent:
  assumes ok: "conserve_ok oc w" and i: "i < length (threads w)"
    and send: "threads w ! i = SendLoop (S_Send opus)"
  shows "conserve_ok oc
           (set_thread i (SendLoop S_Stamp) (w\<lparr>wire := wire w @ [audio_frame w i opus]\<rparr>))"
    (is "conserve_ok oc ?w")
proof (rule conserve_okI)
  from i send holding_set_thread [of i "w\<lparr>wire := wire w @ [audio_frame w i opus]\<rparr>" "SendLoop S_Stamp"]
  have "holding ?w + {#opus#} = holding w"
    by simp
  then have "mset (binary_payloads (wire ?w)) + holding ?w =
             mset (binary_payloads (wire w)) + holding w"
    by (simp add: audio_frame_def)
  with ok show "mset (binary_payloads (wire ?w)) + holding ?w \<subseteq># mset (encodings oc (taken ?w))"
    by (simp add: conserve_ok_def)
qed (use ok in \<open>simp_all add: conserve_ok_def fifo_ok_def\<close>)

lemma conserve_ok_ping:
  "conserve_ok oc w \<Longrightarrow>
   conserve_ok oc (set_thread i (Keepalive K_Head) (w\<lparr>wire := wire w @ [ping_frame w i]\<rparr>))"
proof (rule conserve_ok_quiet)
  assume "conserve_ok oc w"
  then show "conserve_ok oc (w\<lparr>wire := wire w @ [ping_frame w i]\<rparr>)"
    by (simp add: conserve_ok_def fifo_ok_def ping_frame_def)
qed simp

lemma conserve_ok_thread_step: "conserve_ok oc w \<Longrightarrow> conserve_ok oc (thread_step w i net)"
  by (rule thread_step_cases [of w i net])
     (simp_all add: conserve_ok_send_body conserve_ok_sent conserve_ok_quiet conserve_ok_ping)

lemma conserve_ok_client:
  assumes "conserve_ok oc w" and "codec c = codec (client w)"
    and "input_queue (audio c) = input_queue (audio (client w))"
  shows "conserve_ok oc (w\<lparr>client := c\<rparr>)"
  using assms by (simp add: conserve_ok_def fifo_ok_def)

lemma conserve_ok_captured:
  assumes "conserve_ok oc w" and "input_callback (audio (client w)) in_data = Some (a, r)"
  shows "conserve_ok oc ((set_audio a w)\<lparr>captured := captured w @ [in_data]\<rparr>)"
  using assms
  by (auto simp: conserve_ok_def fifo_ok_def input_callback_Some_iff)

lemma conserve_ok_capture: "conserve_ok oc w \<Longrightarrow> conserve_ok oc (capture w in_data)"
  by (auto simp: capture_def conserve_ok_captured split: option.splits)

lemma conserve_ok_capture_resume: "conserve_ok oc w \<Longrightarrow> conserve_ok oc (capture_resume w)"
  using conserve_ok_captured [of oc w, THEN conserve_ok_blocked [THEN iffD2]]
  by (auto simp: capture_resume_def split: option.splits)

lemma conserve_ok_step: "conserve_ok oc w \<Longrightarrow> conserve_ok oc (step loads w e)"
proof (cases e)
  case (Message m dev)
  moreover assume "conserve_ok oc w"
  ultimately show ?thesis
    by (auto split: sum.splits intro!: conserve_ok_client dest: on_message_frame)
qed (simp_all add: conserve_ok_thread_step conserve_ok_capture conserve_ok_capture_resume
    conserve_ok_client)

lemma reachable_conserve_ok: "reachable loads oc w \<Longrightarrow> conserve_ok oc w"
  by (induction rule: reachable.induct) (simp_all add: conserve_ok_init conserve_ok_step)

lemma conserve_ok_captured_sub:
  assumes "conserve_ok oc w"
  shows "mset (binary_payloads (wire w)) + holding w \<subseteq># mset (encodings oc (captured w))"
proof -
  from assms have "captured w = taken w @ q_items (input_queue (audio (client w)))"
    by (simp add: conserve_ok_def fifo_ok_def)
  with assms show ?thesis
    by (auto simp: conserve_ok_def intro: subset_mset.add_increasing2)
qed

section \<open>Nothing is sent twice\<close>

lemma distinct_mset_subset:
  assumes "mset xs \<subseteq># mset ys" and "distinct ys"
  shows "distinct xs"
  unfolding distinct_count_atmost_1
proof (intro allI)
  fix a
  from assms(2) have "count (mset ys) a \<le> 1"
    by (simp add: distinct_count_atmost_1)
  with mset_subset_eq_count [OF assms(1), of a] have "count (mset xs) a \<le> 1"
    by simp
  moreover have "a \<in> set xs \<longleftrightarrow> count (mset xs) a \<noteq> 0"
    by (simp add: count_mset_0_iff)
  ultimately show "count (mset xs) a = (if a \<in> set xs then 1 else 0)"
    by (simp only: split: if_split) linarith
qed

text \<open>
  C5. Frames are conserved across sessions: in every run, with any number of
  connections and of send threads, the audio frames on the wire together with the
  frames that threads hold are among the encodings of the captured blocks, each at most
  as often as it was captured. No frame is invented and none is sent a second time,
  also where reconnects have destroyed the order.
\<close>

theorem frames_conserved:
  "mset (binary_payloads (wire (exec loads (init_world oc) es))) +
     holding (exec loads (init_world oc) es) \<subseteq>#
   mset (encodings oc (captured (exec loads (init_world oc) es)))"
  using reachable_conserve_ok [OF reachable_run [of loads oc es]]
  by (rule conserve_ok_captured_sub)

text \<open>
  If the captured blocks encode to different frames, the wire carries no audio frame
  twice.
\<close>

lemma frames_sent_once:
  assumes "distinct (encodings oc (captured (exec loads (init_world oc) es)))"
  shows "distinct (binary_payloads (wire (exec loads (init_world oc) es)))"
proof -
  let ?w = "exec loads (init_world oc) es"
  from reachable_conserve_ok [OF reachable_run [of loads oc es]]
  have "mset (binary_payloads (wire ?w)) + holding ?w \<subseteq># mset (encodings oc (captured ?w))"
    by (rule conserve_ok_captured_sub)
  with mset_subset_eq_add_left
  have "mset (binary_payloads (wire ?w)) \<subseteq># mset (encodings oc (captured ?w))"
    by (rule subset_mset.order_trans)
  then show ?thesis using assms by (rule distinct_mset_subset)
qed

end
