(* ===== verification/Lifecycle.thy ===== *)
theory Lifecycle
  imports Engine
begin

text \<open>
  The connection lifecycle. The design describes it as a machine over five states; the
  source keeps one flag, \<^verbatim>\<open>is_running\<close>, which the callbacks of the transport set
  and the two loops read. \<open>lifecycle\<close> is the state of the design's connection under the
  events of the engine (the machine with its retry budget is in \<open>Design\<close>), and the
  refinement lemma says for which events the flag is its abstraction "the connection is
  open". The rest of the theory counts releases of the audio
  device, shows what the cleanup after an interrupt leaves running, follows a
  sleeping thread across a reconnect, and proves that the loops end once the flag is
  cleared.
\<close>

section \<open>Definitions\<close>

datatype conn_state = C_Disconnected | C_Connecting | C_Open | C_Closing | C_Failed

fun lifecycle :: "conn_state \<Rightarrow> event \<Rightarrow> conn_state" where
  "lifecycle s Open = C_Open"
| "lifecycle s Error = C_Failed"
| "lifecycle s Close = C_Failed"
| "lifecycle s Interrupt = C_Closing"
| "lifecycle s e = s"

fun lifecycle_run :: "conn_state \<Rightarrow> event list \<Rightarrow> conn_state" where
  "lifecycle_run s [] = s"
| "lifecycle_run s (e # es) = lifecycle_run (lifecycle s e) es"

definition streaming :: "conn_state \<Rightarrow> bool" where
  "streaming s \<longleftrightarrow> s = C_Open"

definition releasing :: "event \<Rightarrow> bool" where
  "releasing e \<longleftrightarrow> e = Close \<or> e = Interrupt"

text \<open>
  For the exit of the loops: a thread is \<open>settled\<close> when it has left its loop, \<open>awake\<close>
  when it is not in a sleep that ends in the future, and \<open>steps_left\<close> bounds the steps
  it needs to leave its loop once the flag is cleared.
\<close>

fun settled :: "thread \<Rightarrow> bool" where
  "settled (SendLoop S_Done) = True"
| "settled (Keepalive K_Done) = True"
| "settled t = False"

fun awake :: "seconds \<Rightarrow> thread \<Rightarrow> bool" where
  "awake now (SendLoop (S_Sleep last_send wake)) = (wake \<le> now)"
| "awake now (Keepalive (K_Sleep wake)) = (wake \<le> now)"
| "awake now t = True"

fun steps_left :: "thread \<Rightarrow> nat" where
  "steps_left (SendLoop S_Done) = 0"
| "steps_left (SendLoop (S_Head last_send)) = 1"
| "steps_left (SendLoop S_Start) = 2"
| "steps_left (SendLoop S_Stamp) = 2"
| "steps_left (SendLoop (S_Send opus_frame)) = 3"
| "steps_left (SendLoop (S_Body last_send)) = 4"
| "steps_left (SendLoop (S_Sleep last_send wake)) = 5"
| "steps_left (Keepalive K_Done) = 0"
| "steps_left (Keepalive K_Head) = 1"
| "steps_left (Keepalive (K_Sleep wake)) = 2"

section \<open>The flag and the design's machine\<close>

lemma is_running_step:
  "e \<noteq> Interrupt \<Longrightarrow> (is_running (client w) \<longleftrightarrow> streaming s) \<Longrightarrow>
   (is_running (client (step loads w e)) \<longleftrightarrow> streaming (lifecycle s e))"
  by (cases e) (auto simp: streaming_def split: sum.splits dest: on_message_frame)

lemma is_running_exec:
  "Interrupt \<notin> set es \<Longrightarrow> (is_running (client w) \<longleftrightarrow> streaming s) \<Longrightarrow>
   (is_running (client (exec loads w es)) \<longleftrightarrow> streaming (lifecycle_run s es))"
proof (induction es arbitrary: w s)
  case Nil
  then show ?case by simp
next
  case (Cons e es)
  from Cons.prems have "e \<noteq> Interrupt" by auto
  with Cons.prems have "is_running (client (step loads w e)) \<longleftrightarrow> streaming (lifecycle s e)"
    by (intro is_running_step)
  with Cons.prems Cons.IH [of "step loads w e" "lifecycle s e"] show ?case
    by simp
qed

section \<open>Releases of the audio device\<close>

lemma release_calls_step:
  "release_calls (audio (client (step loads w e))) =
     release_calls (audio (client w)) + (if releasing e then 1 else 0)"
  by (cases e) (auto simp: releasing_def split: sum.splits dest: on_message_frame)

lemma release_calls_exec:
  "release_calls (audio (client (exec loads w es))) =
     release_calls (audio (client w)) + length (filter releasing es)"
  by (induction es arbitrary: w) (simp_all add: release_calls_step)

section \<open>The clock\<close>

lemma clock_step: "clock w \<le> clock (step loads w e)"
  by (cases e) (auto split: sum.splits)

lemma clock_exec: "clock w \<le> clock (exec loads w es)"
proof (induction es arbitrary: w)
  case Nil
  then show ?case by simp
next
  case (Cons e es)
  have "clock w \<le> clock (step loads w e)" by (rule clock_step)
  also have "\<dots> \<le> clock (exec loads (step loads w e) es)" by (rule Cons.IH)
  finally show ?case by simp
qed

section \<open>The grain of the callbacks\<close>

text \<open>
  \<^verbatim>\<open>_on_close\<close> is the one callback that changes state the threads read and then does
  more: it clears the flag and then cleans up. It is \<^verbatim>\<open>_on_error\<close> followed by the
  cleanup of an interrupt, so a run in which threads are scheduled between its two
  statements is the run \<open>Error # es @ [Interrupt]\<close> of the engine.
\<close>

lemma close_splits: "step loads w Close = exec loads w [Error, Interrupt]"
  by (simp add: on_close_def on_error_def)

section \<open>The flag, the releases and the threads\<close>

text \<open>
  C9. The flag \<^verbatim>\<open>is_running\<close> is the design's state \<open>Open\<close>: as long as no
  \<^verbatim>\<open>KeyboardInterrupt\<close> has occurred, the flag is set exactly when the design's
  machine, fed the same events, is in state \<open>Open\<close>.
\<close>

theorem flag_refines_lifecycle:
  assumes "Interrupt \<notin> set es"
  shows "is_running (client (exec loads (init_world oc) es)) \<longleftrightarrow>
         lifecycle_run C_Disconnected es = C_Open"
  using is_running_exec [OF assms, of "init_world oc" C_Disconnected loads]
  by (simp add: streaming_def)

theorem flag_refines_lifecycle_witness:
  "Interrupt \<notin> set [Open, Error, Open] \<and>
   is_running (client (exec (\<lambda>s. None) (init_world loopback_codec) [Open, Error, Open])) \<and>
   lifecycle_run C_Disconnected [Open, Error, Open] = C_Open"
  using flag_refines_lifecycle [of "[Open, Error, Open]" "\<lambda>s. None" loopback_codec]
  by simp

text \<open>
  C28. The audio device is released once for every \<^verbatim>\<open>_on_close\<close> and once for every
  \<^verbatim>\<open>KeyboardInterrupt\<close>, and at no other event: not on \<^verbatim>\<open>_on_error\<close>, and again
  if a close is followed by an interrupt.
\<close>

theorem releases_counted:
  "release_calls (audio (client (exec loads (init_world oc) es))) =
     length (filter (\<lambda>e. e = Close \<or> e = Interrupt) es)"
proof -
  have "releasing = (\<lambda>e. e = Close \<or> e = Interrupt)"
    by (rule ext) (simp add: releasing_def)
  with release_calls_exec [of loads "init_world oc" es] show ?thesis by simp
qed

text \<open>
  C34. The cleanup after \<^verbatim>\<open>KeyboardInterrupt\<close> stops no loop: it leaves
  \<^verbatim>\<open>is_running\<close> set, so a send thread that tests the flag afterwards goes on with
  its next iteration, against a released audio device and a closed transport.
\<close>

theorem interrupt_stops_no_loop:
  assumes "is_running (client w)" and "i < length (threads w)"
    and "threads w ! i = SendLoop (S_Head last_send)"
  shows "is_running (client (exec loads w [Interrupt, Step i net])) \<and>
         threads (exec loads w [Interrupt, Step i net]) ! i = SendLoop (head_pc w last_send) \<and>
         head_pc w last_send \<noteq> S_Done \<and>
         input_stream (audio (client (exec loads w [Interrupt, Step i net]))) = Closed"
  using assms by (simp add: thread_step_def send_head_eq head_pc_def)

theorem interrupt_stops_no_loop_witness:
  "is_running (client (exec (\<lambda>s. None) (init_world loopback_codec) [Open, Step 0 None])) \<and>
   threads (exec (\<lambda>s. None) (init_world loopback_codec) [Open, Step 0 None]) ! 0 =
     SendLoop (S_Head 0) \<and>
   threads (exec (\<lambda>s. None) (init_world loopback_codec)
     [Open, Step 0 None, Interrupt, Step 0 None]) ! 0 = SendLoop (S_Sleep 0 (3 / 50))"
  using interrupt_stops_no_loop
    [of "exec (\<lambda>s. None) (init_world loopback_codec) [Open, Step 0 None]" 0 0 "\<lambda>s. None" None]
  by (simp add: run_defs)

text \<open>
  C32. Threads outlive their connection. A keepalive thread that sleeps while the
  connection fails and is opened again finds the flag set when it wakes, sends its
  ping and goes on, beside the pair of threads that the second \<^verbatim>\<open>_on_open\<close> has
  started: there are then two keepalive loops and two send loops on one connection.
\<close>

theorem sleeper_survives_reconnect:
  assumes "i < length (threads w)" and "threads w ! i = Keepalive (K_Sleep wake)"
    and "wake \<le> clock w + d" and "0 \<le> d" and "ws (client w) \<noteq> None"
  shows "wire (exec loads w [Error, Open, Tick d, Step i None, Step i None]) =
           wire w @ [(clock w + d, i, OPCODE_PING, Str ''PING'')] \<and>
         threads (exec loads w [Error, Open, Tick d, Step i None, Step i None]) =
           (threads w)[i := Keepalive (K_Sleep (clock w + d + real (ping_interval (client w))))] @
           [SendLoop S_Start, Keepalive K_Head]"
  using assms
  by (auto simp: thread_step_def nth_append ws_send_def set_thread_def list_update_append
      split: option.splits)

theorem sleeper_survives_reconnect_witness:
  "threads (exec (\<lambda>s. None) (init_world loopback_codec) [Open, Step 1 None]) ! 1 =
     Keepalive (K_Sleep 25) \<and>
   wire (exec (\<lambda>s. None) (init_world loopback_codec)
     [Open, Step 1 None, Error, Open, Tick 25, Step 1 None, Step 1 None]) =
     [(25, 1, OPCODE_PING, Str ''PING'')] \<and>
   threads (exec (\<lambda>s. None) (init_world loopback_codec)
     [Open, Step 1 None, Error, Open, Tick 25, Step 1 None, Step 1 None]) =
     [SendLoop S_Start, Keepalive (K_Sleep 50), SendLoop S_Start, Keepalive K_Head]"
  using sleeper_survives_reconnect
    [of 1 "exec (\<lambda>s. None) (init_world loopback_codec) [Open, Step 1 None]" 25 25 "\<lambda>s. None"]
  by (simp add: run_defs)

section \<open>The exit of the loops\<close>

lemma steps_left_bound: "steps_left t \<le> 5"
  by (cases t rule: steps_left.cases) simp_all

lemma steps_left_0: "steps_left t = 0 \<Longrightarrow> settled t"
  by (cases t rule: steps_left.cases) simp_all

text \<open>
  One step of an awake thread whose flag is cleared: it comes closer to the exit, and
  it does not go to sleep.
\<close>

lemma thread_step_progress:
  assumes "\<not> is_running (client w)" and "i < length (threads w)"
    and "awake (clock w) (threads w ! i)"
  shows "steps_left (threads (thread_step w i net) ! i) \<le> steps_left (threads w ! i) - 1 \<and>
         awake (clock (thread_step w i net)) (threads (thread_step w i net) ! i)"
proof (cases "threads w ! i")
  case (Keepalive pc)
  with assms show ?thesis
    by (cases pc) (auto simp: thread_step_def ws_send_def split: option.splits)
next
  case (SendLoop pc)
  show ?thesis
  proof (cases pc)
    case (S_Body last_send)
    with assms SendLoop show ?thesis
      by (rule_tac send_body_cases [of w i last_send]) (simp_all add: thread_step_def)
  next
    case (S_Send opus)
    with assms SendLoop send_frame_effect [of w i opus net] show ?thesis
      by (auto simp: thread_step_def)
  qed (use assms SendLoop in \<open>auto simp: thread_step_def send_head_eq head_pc_def\<close>)
qed

lemma settles:
  assumes "\<not> is_running (client w)" and "i < length (threads w)"
    and "awake (clock w) (threads w ! i)" and "steps_left (threads w ! i) \<le> n"
  shows "settled (threads (exec loads w (replicate n (Step i net))) ! i)"
  using assms
proof (induction n arbitrary: w)
  case 0
  then show ?case by (simp add: steps_left_0)
next
  case (Suc n)
  let ?w = "thread_step w i net"
  from thread_step_progress [OF Suc.prems(1-3), of net] Suc.prems(4)
  have "awake (clock ?w) (threads ?w ! i)" and "steps_left (threads ?w ! i) \<le> n"
    by (simp, arith)
  moreover from Suc.prems have "\<not> is_running (client ?w)" and "i < length (threads ?w)"
    by simp_all
  ultimately have "settled (threads (exec loads ?w (replicate n (Step i net))) ! i)"
    by (intro Suc.IH)
  then show ?case by simp
qed

text \<open>
  C18. The loops end when the flag is cleared: a thread that is not asleep and finds
  \<^verbatim>\<open>is_running\<close> cleared has left its loop after at most five of its own steps,
  whatever the network answers and whatever is in the capture queue.
\<close>

theorem stopped_thread_exits:
  assumes "\<not> is_running (client w)" and "i < length (threads w)"
    and "awake (clock w) (threads w ! i)"
  shows "settled (threads (exec loads w (replicate 5 (Step i net))) ! i)"
  using assms steps_left_bound by (rule settles)

theorem stopped_thread_exits_witness:
  "\<not> is_running (client (exec (\<lambda>s. None) (init_world loopback_codec) [Open, Step 0 None, Error])) \<and>
   threads (exec (\<lambda>s. None) (init_world loopback_codec) [Open, Step 0 None, Error]) ! 0 =
     SendLoop (S_Head 0) \<and>
   threads (exec (\<lambda>s. None)
     (exec (\<lambda>s. None) (init_world loopback_codec) [Open, Step 0 None, Error])
     (replicate 5 (Step 0 None))) ! 0 = SendLoop S_Done"
  using stopped_thread_exits
    [of "exec (\<lambda>s. None) (init_world loopback_codec) [Open, Step 0 None, Error]" 0 "\<lambda>s. None" None]
  by (simp add: run_defs replicate_5)

end
