(* ===== verification/Design.thy ===== *)
theory Design
  imports Lifecycle
begin

text \<open>
  The connection lifecycle of the design in full: five states, the retry budget, the
  pair of loops and the count of cleanups, with one rule per transition of the design's
  section 4.3. The design lists the failure of a connection only from \<open>Open\<close>; its
  test of five immediate failures lets a connection attempt fail, so \<open>Failure\<close> is taken
  from \<open>Connecting\<close> too, with the budget counted and nothing to stop or to release.
  \<open>transition\<close> is the machine as a relation and \<open>fire\<close> the same machine as a function.

  The source has no such machine. What it has is the loop of \<^verbatim>\<open>AudioClient.run\<close>:
  \<open>loop_trace\<close> is that loop writing down what it does in the design's terms, a
  \<open>Failure\<close> for an attempt that raises and a \<open>Retry\<close> with its delay for every sleep
  that runs to its end. The theory shows for which runs this trace is a run of the
  design's machine and where the two part: at the end of the budget, after a session
  that was open, and at an interrupt during the delay.
\<close>

section \<open>Definitions\<close>

datatype signal = Connect | Opened | Failure | Retry nat | GiveUp | Stop | Released

record machine =
  conn :: conn_state
  retry_budget :: nat
  loops :: bool
  cleanups :: nat

text \<open>The reference values of the design's configuration.\<close>

definition maxRetries :: nat where
  "maxRetries = 5"

definition capDelay :: nat where
  "capDelay = 30"

definition machine0 :: machine where
  "machine0 = \<lparr>conn = C_Disconnected, retry_budget = 0, loops = False, cleanups = 0\<rparr>"

inductive transition :: "machine \<Rightarrow> signal \<Rightarrow> machine \<Rightarrow> bool" where
  connect: "conn m = C_Disconnected \<Longrightarrow> retry_budget m < maxRetries \<Longrightarrow>
    transition m Connect (m\<lparr>conn := C_Connecting\<rparr>)"
| opened: "conn m = C_Connecting \<Longrightarrow>
    transition m Opened (m\<lparr>conn := C_Open, retry_budget := 0, loops := True\<rparr>)"
| failed: "conn m = C_Open \<Longrightarrow>
    transition m Failure
      (m\<lparr>conn := C_Failed, retry_budget := Suc (retry_budget m), loops := False,
         cleanups := Suc (cleanups m)\<rparr>)"
| refused: "conn m = C_Connecting \<Longrightarrow>
    transition m Failure (m\<lparr>conn := C_Failed, retry_budget := Suc (retry_budget m)\<rparr>)"
| retry: "conn m = C_Failed \<Longrightarrow> retry_budget m < maxRetries \<Longrightarrow>
    transition m (Retry (min (2 ^ retry_budget m) capDelay)) (m\<lparr>conn := C_Connecting\<rparr>)"
| give_up: "conn m = C_Failed \<Longrightarrow> maxRetries \<le> retry_budget m \<Longrightarrow>
    transition m GiveUp (m\<lparr>conn := C_Disconnected\<rparr>)"
| stop: "conn m = C_Open \<or> conn m = C_Connecting \<Longrightarrow>
    transition m Stop (m\<lparr>conn := C_Closing, loops := False\<rparr>)"
| released: "conn m = C_Closing \<Longrightarrow>
    transition m Released (m\<lparr>conn := C_Disconnected, cleanups := Suc (cleanups m)\<rparr>)"

inductive attainable :: "machine \<Rightarrow> bool" where
  start: "attainable machine0"
| move: "attainable m \<Longrightarrow> transition m s m' \<Longrightarrow> attainable m'"

fun fire :: "machine \<Rightarrow> signal \<Rightarrow> machine option" where
  "fire m Connect =
     (if conn m = C_Disconnected \<and> retry_budget m < maxRetries
      then Some (m\<lparr>conn := C_Connecting\<rparr>) else None)"
| "fire m Opened =
     (if conn m = C_Connecting
      then Some (m\<lparr>conn := C_Open, retry_budget := 0, loops := True\<rparr>) else None)"
| "fire m Failure =
     (if conn m = C_Open
      then Some (m\<lparr>conn := C_Failed, retry_budget := Suc (retry_budget m), loops := False,
                   cleanups := Suc (cleanups m)\<rparr>)
      else if conn m = C_Connecting
      then Some (m\<lparr>conn := C_Failed, retry_budget := Suc (retry_budget m)\<rparr>)
      else None)"
| "fire m (Retry d) =
     (if conn m = C_Failed \<and> retry_budget m < maxRetries \<and> d = min (2 ^ retry_budget m) capDelay
      then Some (m\<lparr>conn := C_Connecting\<rparr>) else None)"
| "fire m GiveUp =
     (if conn m = C_Failed \<and> maxRetries \<le> retry_budget m
      then Some (m\<lparr>conn := C_Disconnected\<rparr>) else None)"
| "fire m Stop =
     (if conn m = C_Open \<or> conn m = C_Connecting
      then Some (m\<lparr>conn := C_Closing, loops := False\<rparr>) else None)"
| "fire m Released =
     (if conn m = C_Closing
      then Some (m\<lparr>conn := C_Disconnected, cleanups := Suc (cleanups m)\<rparr>) else None)"

fun fire_all :: "machine \<Rightarrow> signal list \<Rightarrow> machine option" where
  "fire_all m [] = Some m"
| "fire_all m (s # ss) = (case fire m s of None \<Rightarrow> None | Some m' \<Rightarrow> fire_all m' ss)"

text \<open>What the design's states promise, as a predicate on the machine.\<close>

definition machine_ok :: "machine \<Rightarrow> bool" where
  "machine_ok m \<longleftrightarrow>
     (loops m \<longleftrightarrow> conn m = C_Open) \<and> retry_budget m \<le> maxRetries \<and>
     (conn m = C_Open \<longrightarrow> retry_budget m = 0) \<and>
     (conn m = C_Connecting \<or> conn m = C_Closing \<longrightarrow> retry_budget m < maxRetries)"

text \<open>The callbacks of the transport and the interrupt, as signals of the design.\<close>

fun signal_of :: "event \<Rightarrow> signal option" where
  "signal_of Open = Some Opened"
| "signal_of Error = Some Failure"
| "signal_of Close = Some Failure"
| "signal_of Interrupt = Some Stop"
| "signal_of e = None"

text \<open>
  The loop of \<^verbatim>\<open>run\<close> with the trace of its moves as its world: the first call of
  \<^verbatim>\<open>run_forever\<close> is the design's \<open>Connect\<close>, an attempt that raises is a
  \<open>Failure\<close>, and a \<^verbatim>\<open>time.sleep(delay)\<close> that runs to its end, after which the loop
  goes back to its test, is the delayed move from \<open>Failed\<close> to \<open>Connecting\<close>. A sleep
  that is disturbed is no move: the loop is left where it is.
\<close>

definition attempted :: "(nat \<Rightarrow> attempt) \<Rightarrow> nat \<Rightarrow> signal list \<Rightarrow> attempt \<times> signal list" where
  "attempted env i tr = (env i, tr @ (if env i = Raised then [Failure] else []))"

definition rested :: "(nat \<Rightarrow> rest) \<Rightarrow> nat \<Rightarrow> nat \<Rightarrow> signal list \<Rightarrow> rest \<times> signal list" where
  "rested rests i delay tr = (rests i, if rests i = Rested then tr @ [Retry delay] else tr)"

definition loop_trace ::
  "(nat \<Rightarrow> attempt) \<Rightarrow> (nat \<Rightarrow> rest) \<Rightarrow> run_result \<times> nat \<times> signal list" where
  "loop_trace env rests = run (attempted env) (rested rests) [Connect]"

text \<open>
  The moves of \<open>k\<close> failed attempts, each followed by its sleep, and the moves of the
  loop after \<open>k\<close> failures, the last of which may have been followed by a disturbed
  sleep. \<open>waiting\<close> and \<open>stranded\<close> are the two states of the machine in which the loop
  can leave it.
\<close>

definition failed_attempts :: "nat \<Rightarrow> nat \<Rightarrow> signal list" where
  "failed_attempts r k = concat (map (\<lambda>i. [Failure, Retry (backoff_delay i)]) [Suc r ..< Suc (r + k)])"

definition loop_moves :: "(nat \<Rightarrow> rest) \<Rightarrow> nat \<Rightarrow> nat \<Rightarrow> signal list" where
  "loop_moves rests r k =
     (if cut_short rests r k then failed_attempts r (k - 1) @ [Failure] else failed_attempts r k)"

definition waiting :: "nat \<Rightarrow> machine" where
  "waiting k = \<lparr>conn = C_Connecting, retry_budget = k, loops = False, cleanups = 0\<rparr>"

definition stranded :: "nat \<Rightarrow> machine" where
  "stranded k = \<lparr>conn = C_Failed, retry_budget = k, loops = False, cleanups = 0\<rparr>"

section \<open>The relation and the function\<close>

inductive_cases transition_ConnectE [elim!]: "transition m Connect m'"
inductive_cases transition_OpenedE [elim!]: "transition m Opened m'"
inductive_cases transition_FailureE [elim!]: "transition m Failure m'"
inductive_cases transition_RetryE [elim!]: "transition m (Retry d) m'"
inductive_cases transition_GiveUpE [elim!]: "transition m GiveUp m'"
inductive_cases transition_StopE [elim!]: "transition m Stop m'"
inductive_cases transition_ReleasedE [elim!]: "transition m Released m'"

lemma transition_iff_fire: "transition m s m' \<longleftrightarrow> fire m s = Some m'"
  by (cases s) (auto intro: transition.intros)

lemma transition_deterministic: "transition m s m' \<Longrightarrow> transition m s m'' \<Longrightarrow> m'' = m'"
  by (simp add: transition_iff_fire)

lemma fire_all_append:
  "fire_all m (ss @ ts) = (case fire_all m ss of None \<Rightarrow> None | Some m' \<Rightarrow> fire_all m' ts)"
  by (induction ss arbitrary: m) (simp_all split: option.splits)

lemma attainable_fire_all: "attainable m \<Longrightarrow> fire_all m ss = Some m' \<Longrightarrow> attainable m'"
proof (induction ss arbitrary: m)
  case (Cons s ss)
  then show ?case
    by (auto split: option.splits simp: transition_iff_fire [symmetric] intro: attainable.move)
qed simp

section \<open>What every attainable state satisfies\<close>

lemma machine_ok_transition: "transition m s m' \<Longrightarrow> machine_ok m \<Longrightarrow> machine_ok m'"
  by (induction rule: transition.induct) (auto simp: machine_ok_def maxRetries_def)

lemma attainable_machine_ok: "attainable m \<Longrightarrow> machine_ok m"
  by (induction rule: attainable.induct)
     (simp_all add: machine_ok_def machine0_def machine_ok_transition [unfolded machine_ok_def])

text \<open>
  The terminal failure: with the budget used up and the connection given up, the
  machine has no move left, not even a new start.
\<close>

lemma terminal_no_move:
  "conn m = C_Disconnected \<Longrightarrow> maxRetries \<le> retry_budget m \<Longrightarrow> fire m s = None"
  by (cases s) simp_all

text \<open>A stop from \<open>Open\<close> or \<open>Connecting\<close> runs the cleanup once and ends disconnected.\<close>

lemma stop_cleans_once:
  "conn m = C_Open \<or> conn m = C_Connecting \<Longrightarrow>
   fire_all m [Stop, Released] =
     Some (m\<lparr>conn := C_Disconnected, loops := False, cleanups := Suc (cleanups m)\<rparr>)"
  by auto

text \<open>
  The flag of the source against the loops of the design: where the machine can follow
  the callbacks, the state it reaches is the one \<open>lifecycle\<close> computes.
\<close>

lemma fire_lifecycle:
  "signal_of e = Some s \<Longrightarrow> fire m s = Some m' \<Longrightarrow> conn m' = lifecycle (conn m) e"
  by (cases e) (auto split: if_splits)

section \<open>The trace of the loop\<close>

lemma failed_attempts_0 [simp]: "failed_attempts r 0 = []"
  by (simp add: failed_attempts_def)

lemma failed_attempts_Suc:
  "failed_attempts r (Suc k) = [Failure, Retry (backoff_delay (Suc r))] @ failed_attempts (Suc r) k"
  by (simp add: failed_attempts_def upt_conv_Cons del: upt_Suc)

lemma failed_attempts_snoc:
  "failed_attempts r (Suc k) =
     failed_attempts r k @ [Failure, Retry (backoff_delay (Suc (r + k)))]"
  by (simp add: failed_attempts_def)

lemma loop_moves_0 [simp]: "loop_moves rests r 0 = []"
  by (simp add: loop_moves_def cut_short_simps)

lemma loop_moves_cut: "rests (Suc r) = Disturbed \<Longrightarrow> loop_moves rests r (Suc 0) = [Failure]"
  by (simp add: loop_moves_def cut_short_simps)

lemma loop_moves_Suc:
  "rests (Suc r) = Rested \<Longrightarrow>
   loop_moves rests r (Suc k) =
     [Failure, Retry (backoff_delay (Suc r))] @ loop_moves rests (Suc r) k"
  by (cases k) (simp_all add: loop_moves_def failed_attempts_Suc cut_short_simps)

lemma run_loop_trace:
  "retries \<le> max_retries \<Longrightarrow>
   run_loop (attempted env) (rested rests) retries tr =
     (let k = failures env rests retries (max_retries - retries)
      in (ending env rests retries k, retries + k, tr @ loop_moves rests retries k))"
proof (induction retries tr
    rule: run_loop_induct [where rf = "attempted env" and sl = "rested rests"])
  case (exhausted retries tr)
  then show ?case by (simp add: run_loop_exhausted ending_0)
next
  case (returned retries tr tr')
  then show ?case by (auto simp: run_loop_returned failures_stop ending_0 attempted_def)
next
  case (interrupted retries tr tr')
  then show ?case by (auto simp: run_loop_interrupted failures_stop ending_0 attempted_def)
next
  case (disturbed retries tr tr' tr'')
  then have "env retries = Raised" and "rests (Suc retries) = Disturbed"
    and "tr'' = tr @ [Failure]"
    by (auto simp: attempted_def rested_def split: if_splits)
  with disturbed show ?case
    by (simp add: run_loop_disturbed [where w' = tr' and w'' = tr''] failures_cut ending_cut
        loop_moves_cut)
next
  case (raised retries tr tr' tr'')
  define k where "k = failures env rests (Suc retries) (max_retries - Suc retries)"
  from raised have env: "env retries = Raised" and rest: "rests (Suc retries) = Rested"
    and tr'': "tr'' = tr @ [Failure, Retry (backoff_delay (Suc retries))]"
    by (auto simp: attempted_def rested_def split: if_splits)
  with raised.hyps(1) have "failures env rests retries (max_retries - retries) = Suc k"
    by (simp add: failures_go k_def)
  with raised.hyps raised.IH env rest tr'' show ?case
    by (simp add: run_loop_raised [where w' = tr' and w'' = tr''] Let_def k_def ending_Suc
        loop_moves_Suc)
qed

lemma loop_trace_eq:
  "loop_trace env rests =
     (let k = failures env rests 0 max_retries
      in (ending env rests 0 k, k, Connect # loop_moves rests 0 k))"
  by (simp add: loop_trace_def run_def run_loop_trace Let_def)

lemma retries_of_moves:
  "[d. Retry d \<leftarrow> loop_moves rests 0 k] = map backoff_delay [1 ..< Suc (slept rests 0 k)]"
proof -
  have "[d. Retry d \<leftarrow> failed_attempts 0 n] = map backoff_delay [1 ..< Suc n]" for n
    by (induction n) (simp_all add: failed_attempts_snoc)
  then show ?thesis
    by (simp add: loop_moves_def slept_def del: upt_Suc)
qed

section \<open>The machine along the trace\<close>

lemmas design_defs = maxRetries_def capDelay_def max_retries_def backoff_delay_def

lemma fire_connect: "fire_all machine0 [Connect] = Some (waiting 0)"
  by (simp add: machine0_def waiting_def maxRetries_def)

lemma fire_failed_attempts:
  "k < max_retries \<Longrightarrow> fire_all machine0 (Connect # failed_attempts 0 k) = Some (waiting k)"
proof (induction k)
  case 0
  then show ?case using fire_connect by simp
next
  case (Suc k)
  then have "fire_all machine0 (Connect # failed_attempts 0 k) = Some (waiting k)"
    by simp
  with Suc.prems show ?case
    using fire_all_append [of machine0 "Connect # failed_attempts 0 k"
        "[Failure, Retry (backoff_delay (Suc k))]"]
    by (simp add: failed_attempts_snoc waiting_def design_defs)
qed

lemma fire_failure:
  "k < max_retries \<Longrightarrow>
   fire_all machine0 (Connect # failed_attempts 0 k @ [Failure]) = Some (stranded (Suc k))"
  using fire_failed_attempts [of k]
    fire_all_append [of machine0 "Connect # failed_attempts 0 k" "[Failure]"]
  by (simp add: waiting_def stranded_def)

lemma fire_loop_moves:
  assumes "k \<le> max_retries" and "cut_short rests 0 k \<or> k < max_retries"
  shows "fire_all machine0 (Connect # loop_moves rests 0 k) =
           Some (if cut_short rests 0 k then stranded k else waiting k)"
proof (cases "cut_short rests 0 k")
  case True
  then obtain j where j: "k = Suc j"
    by (cases k) (simp_all add: cut_short_def)
  with True have "loop_moves rests 0 k = failed_attempts 0 j @ [Failure]"
    by (simp add: loop_moves_def)
  with True j assms(1) fire_failure [of j] show ?thesis
    by (simp del: fire_all.simps)
next
  case False
  with assms fire_failed_attempts [of k] show ?thesis
    by (simp add: loop_moves_def del: fire_all.simps)
qed

lemma failed_attempts_5: "failed_attempts 0 5 = failed_attempts 0 4 @ [Failure, Retry 30]"
  using failed_attempts_snoc [of 0 4] by (simp add: eval_nat_numeral backoff_delay_def)

text \<open>
  A stop is a move of the machine from \<open>Open\<close> and from \<open>Connecting\<close> only: the design
  does not say what a shutdown signal does that arrives in \<open>Failed\<close>, during the delay.
\<close>

lemma stranded_no_stop: "fire (stranded k) Stop = None"
  by (simp add: stranded_def)

text \<open>
  A session that was open resets the budget: from \<open>Connecting\<close>, whatever the budget, an
  open connection that fails is retried after two seconds, and the machine is where it
  was after its first failure, with one more cleanup. The design therefore never gives
  up on a transport that opens and fails again and again; the loop of the source does
  after five failures.
\<close>

lemma session_resets_budget:
  "conn m = C_Connecting \<Longrightarrow>
   fire_all m [Opened, Failure, Retry 2] =
     Some (m\<lparr>conn := C_Connecting, retry_budget := 1, loops := False,
              cleanups := Suc (cleanups m)\<rparr>)"
  by (simp add: design_defs)

section \<open>The flag and the loops of the design\<close>

lemma lifecycle_none: "signal_of e = None \<Longrightarrow> lifecycle s e = s"
  by (cases e) simp_all

lemma fire_all_lifecycle:
  "fire_all m (List.map_filter signal_of es) = Some m' \<Longrightarrow> conn m' = lifecycle_run (conn m) es"
proof (induction es arbitrary: m)
  case Nil
  then show ?case by (simp add: map_filter_simps)
next
  case (Cons e es)
  then show ?case
    by (cases "signal_of e")
       (auto simp: map_filter_simps lifecycle_none split: option.splits dest: fire_lifecycle)
qed

lemma machine_ok_fire_all: "machine_ok m \<Longrightarrow> fire_all m ss = Some m' \<Longrightarrow> machine_ok m'"
  by (induction ss arbitrary: m)
     (auto split: option.splits simp: transition_iff_fire [symmetric] dest: machine_ok_transition)

text \<open>
  Where the design's machine can follow the callbacks of a run without interrupt, the
  flag \<^verbatim>\<open>is_running\<close> is the design's "the loops run".
\<close>

lemma flag_follows_machine:
  assumes "Interrupt \<notin> set es" and "machine_ok m"
    and "fire_all m (List.map_filter signal_of es) = Some m'"
    and "is_running (client w) \<longleftrightarrow> loops m"
  shows "is_running (client (exec loads w es)) \<longleftrightarrow> loops m'"
proof -
  from assms(2,4) have "is_running (client w) \<longleftrightarrow> streaming (conn m)"
    by (simp add: machine_ok_def streaming_def)
  with assms(1) have "is_running (client (exec loads w es)) \<longleftrightarrow> streaming (lifecycle_run (conn m) es)"
    by (rule is_running_exec)
  moreover from assms(2,3) have "machine_ok m'" by (rule machine_ok_fire_all)
  ultimately show ?thesis
    using fire_all_lifecycle [OF assms(3)] by (simp add: machine_ok_def streaming_def)
qed

section \<open>The loop of the source against the design\<close>

text \<open>
  C10. The reconnect loop follows the design's machine as long as the budget lasts:
  when \<^verbatim>\<open>run\<close> ends otherwise than by exhaustion, after \<open>k\<close> attempts that raised,
  what it did is a run of the design's machine, which has counted the same \<open>k\<close>
  failures and has slept the same delays. The machine then waits in \<open>Connecting\<close> for
  the attempt that ended the loop or, if an interrupt disturbed the last sleep, is in
  \<open>Failed\<close>, in its delay.
\<close>

theorem reconnect_refines_design:
  assumes "loop_trace env rests = (res, k, tr)" and "res \<noteq> Exhausted"
  shows "fire_all machine0 tr =
           Some \<lparr>conn = (if 0 < k \<and> rests k = Disturbed then C_Failed else C_Connecting),
                 retry_budget = k, loops = False, cleanups = 0\<rparr> \<and>
         k \<le> max_retries \<and> snd (snd (delays env rests)) = [d. Retry d \<leftarrow> tr]"
proof -
  from assms have k: "k = failures env rests 0 max_retries"
    and tr: "tr = Connect # loop_moves rests 0 k" and "ending env rests 0 k \<noteq> Exhausted"
    by (auto simp: loop_trace_eq Let_def)
  with failures_le [of env rests 0 max_retries]
  have le: "k \<le> max_retries" and "cut_short rests 0 k \<or> k < max_retries"
    by (auto simp: ending_def split: if_splits)
  from fire_loop_moves [OF this] le k tr retries_of_moves [of rests k] show ?thesis
    by (simp add: waiting_def stranded_def cut_short_def delays_eq Let_def del: upt_Suc)
qed

theorem reconnect_refines_design_witness:
  "loop_trace (\<lambda>i. if i < 2 then Raised else Returned) (\<lambda>i. Rested) =
     (Finished, 2, [Connect, Failure, Retry 2, Failure, Retry 4]) \<and>
   fire_all machine0 [Connect, Failure, Retry 2, Failure, Retry 4] =
     Some \<lparr>conn = C_Connecting, retry_budget = 2, loops = False, cleanups = 0\<rparr> \<and>
   snd (snd (delays (\<lambda>i. if i < 2 then Raised else Returned) (\<lambda>i. Rested))) = [2, 4]"
  using reconnect_refines_design [of "\<lambda>i. if i < 2 then Raised else Returned" "\<lambda>i. Rested"
      Finished 2 "[Connect, Failure, Retry 2, Failure, Retry 4]"]
  by (simp add: loop_trace_eq design_defs eval_nat_numeral failed_attempts_def loop_moves_def
      ending_def cut_short_def)

text \<open>
  C25. At the end of the budget the loop leaves the design: after the fifth failure the
  source sleeps 30 seconds more and then gives up, a move the design's machine does not
  have. The machine follows the loop up to that failure and gives up at once, having
  slept four delays where the source sleeps five.
\<close>

theorem exhausted_run_leaves_design:
  assumes "loop_trace env rests = (Exhausted, k, tr)"
  shows "fire_all machine0 tr = None \<and> last tr = Retry 30 \<and>
         fire_all machine0 (butlast tr @ [GiveUp]) =
           Some \<lparr>conn = C_Disconnected, retry_budget = 5, loops = False, cleanups = 0\<rparr> \<and>
         length [d. Retry d \<leftarrow> butlast tr] = 4 \<and> length (snd (snd (delays env rests))) = 5"
proof -
  let ?pre = "Connect # failed_attempts 0 4 @ [Failure]"
  from assms have k: "failures env rests 0 max_retries = 5" "\<not> cut_short rests 0 5"
    and "tr = Connect # failed_attempts 0 4 @ [Failure, Retry 30]"
    by (auto simp: loop_trace_eq Let_def max_retries_def failed_attempts_5 ending_def
        loop_moves_def split: if_splits)
  then have tr: "tr = ?pre @ [Retry 30]"
    by simp
  have pre: "fire_all machine0 ?pre = Some (stranded 5)"
    using fire_failure [of 4] by (simp add: max_retries_def)
  have "fire_all machine0 (?pre @ [Retry 30]) = None"
    by (simp only: fire_all_append pre) (simp add: design_defs stranded_def)
  moreover have "fire_all machine0 (?pre @ [GiveUp]) =
      Some \<lparr>conn = C_Disconnected, retry_budget = 5, loops = False, cleanups = 0\<rparr>"
    by (simp only: fire_all_append pre) (simp add: design_defs stranded_def)
  moreover have "length [d. Retry d \<leftarrow> failed_attempts 0 n] = n" for n
    by (induction n) (simp_all add: failed_attempts_snoc)
  then have "length [d. Retry d \<leftarrow> ?pre] = 4"
    by simp
  moreover from k have "length (snd (snd (delays env rests))) = 5"
    by (simp add: delays_eq slept_def Let_def del: upt_Suc)
  ultimately show ?thesis
    by (simp only: tr butlast_snoc last_snoc)
qed

theorem exhausted_run_leaves_design_witness:
  "loop_trace (\<lambda>i. Raised) (\<lambda>i. Rested) =
     (Exhausted, 5, [Connect, Failure, Retry 2, Failure, Retry 4, Failure, Retry 8,
                     Failure, Retry 16, Failure, Retry 30]) \<and>
   fire_all machine0 [Connect, Failure, Retry 2, Failure, Retry 4, Failure, Retry 8,
                      Failure, Retry 16, Failure, Retry 30] = None \<and>
   fire_all machine0 [Connect, Failure, Retry 2, Failure, Retry 4, Failure, Retry 8,
                      Failure, Retry 16, Failure, GiveUp] =
     Some \<lparr>conn = C_Disconnected, retry_budget = 5, loops = False, cleanups = 0\<rparr>"
  using exhausted_run_leaves_design [of "\<lambda>i. Raised" "\<lambda>i. Rested" 5
      "[Connect, Failure, Retry 2, Failure, Retry 4, Failure, Retry 8,
        Failure, Retry 16, Failure, Retry 30]"]
  by (simp add: loop_trace_eq design_defs eval_nat_numeral failed_attempts_def loop_moves_def
      ending_def cut_short_def)

end
