(* ===== verification/Shutdown.thy ===== *)
theory Shutdown
  imports Lifecycle Ordering
begin

text \<open>
  What the threads still send once the flag \<^verbatim>\<open>is_running\<close> is cleared. Both loops
  test the flag at the head only (\<^verbatim>\<open>src/main.py\<close>, lines 170 and 189), so a thread
  that has passed the test finishes its iteration: a send thread that sleeps or holds a
  frame sends one more audio frame, a keepalive thread that sleeps sends one more ping.
  \<open>budget\<close> is that number for each program counter; as long as the connection is not
  opened again, the frames a thread has sent plus its budget never grow.
\<close>

section \<open>Definitions\<close>

fun budget :: "thread \<Rightarrow> nat" where
  "budget (SendLoop (S_Sleep last_send wake)) = 1"
| "budget (SendLoop (S_Body last_send)) = 1"
| "budget (SendLoop (S_Send opus_frame)) = 1"
| "budget (Keepalive (K_Sleep wake)) = 1"
| "budget t = 0"

definition sent_count :: "nat \<Rightarrow> world \<Rightarrow> nat" where
  "sent_count i w = length (filter (sent_by i) (wire w))"

definition owed :: "nat \<Rightarrow> world \<Rightarrow> nat" where
  "owed i w = sent_count i w + (if i < length (threads w) then budget (threads w ! i) else 0)"

section \<open>One step\<close>

lemma owed_cong:
  "wire w' = wire w \<Longrightarrow> threads w' = threads w \<Longrightarrow> owed i w' = owed i w"
  by (simp add: owed_def sent_count_def)

lemma owed_set_thread:
  "owed i (set_thread j t w) =
     (if i = j \<and> j < length (threads w) then sent_count i w + budget t else owed i w)"
  by (simp add: owed_def sent_count_def)

lemma sent_count_frame:
  "sent_count i (w\<lparr>wire := wire w @ [(t, j, opc, d)]\<rparr>) =
     (if i = j then Suc (sent_count i w) else sent_count i w)"
  by (simp add: sent_count_def sent_by_def)

lemma owed_send_loop:
  assumes "\<not> is_running (client w)" and "j < length (threads w)" and "threads w ! j = SendLoop pc"
  shows "owed i (send_loop w j pc net) \<le> owed i w"
proof (cases pc)
  case (S_Body last_send)
  with assms show ?thesis
    by (rule_tac send_body_cases [of w j last_send])
       (simp_all add: owed_set_thread owed_cong [of "dequeued w" w], simp_all add: owed_def sent_count_def)
next
  case (S_Send opus)
  with assms send_frame_effect [of w j opus net] show ?thesis
    by (auto simp: owed_set_thread audio_frame_def sent_count_frame, auto simp: owed_def sent_count_frame)
qed (use assms in \<open>auto simp: owed_set_thread send_head_def, auto simp: owed_def\<close>)

lemma owed_keepalive:
  assumes "\<not> is_running (client w)" and "j < length (threads w)" and "threads w ! j = Keepalive pc"
  shows "owed i (keepalive w j pc net) \<le> owed i w"
proof (cases pc)
  case (K_Sleep wake)
  with assms show ?thesis
    by (auto simp: owed_set_thread ws_send_def sent_count_frame split: option.splits,
        auto simp: owed_def sent_count_frame)
qed (use assms in \<open>auto simp: owed_set_thread, auto simp: owed_def\<close>)

lemma owed_thread_step:
  "\<not> is_running (client w) \<Longrightarrow> owed i (thread_step w j net) \<le> owed i w"
  by (auto simp: thread_step_def owed_send_loop owed_keepalive split: thread.splits)

lemma stopped_step:
  "\<not> is_running (client w) \<Longrightarrow> e \<noteq> Open \<Longrightarrow> \<not> is_running (client (step loads w e))"
  by (cases e) (auto split: sum.splits dest: on_message_frame)

lemma owed_step:
  "\<not> is_running (client w) \<Longrightarrow> e \<noteq> Open \<Longrightarrow> owed i (step loads w e) \<le> owed i w"
  by (cases e)
     (simp_all add: owed_thread_step owed_cong [of "capture w _" w]
        owed_cong [of "capture_resume w" w] owed_cong [of "w\<lparr>client := _\<rparr>" w]
        owed_cong [of "w\<lparr>clock := _\<rparr>" w] split: sum.splits)

lemma owed_exec:
  "\<not> is_running (client w) \<Longrightarrow> Open \<notin> set es \<Longrightarrow> owed i (exec loads w es) \<le> owed i w"
proof (induction es arbitrary: w)
  case (Cons e es)
  from Cons.prems have "owed i (exec loads (step loads w e) es) \<le> owed i (step loads w e)"
    by (intro Cons.IH stopped_step) auto
  also from Cons.prems have "\<dots> \<le> owed i w"
    by (intro owed_step) auto
  finally show ?case by simp
qed simp

lemma budget_le_1: "budget t \<le> 1"
  by (cases t rule: budget.cases) simp_all

section \<open>After the flag is cleared\<close>

text \<open>A session that is cut while the send thread sleeps with a frame in the queue.\<close>

lemma cut_run_wire:
  "wire (exec loads (init_world loopback_codec)
           ([Open, Step 0 None, Step 0 None, Capture pcm0, Error] @
            [Tick (3 / 50), Step 0 None, Step 0 None, Step 0 None])) =
     [(3 / 50, 0, OPCODE_BINARY, Bytes pcm0)]"
  by (simp add: run_defs)

text \<open>
  C19. Once the flag is cleared and as long as the connection is not opened again, every
  thread puts at most one more frame on the wire: the send thread the frame of the
  iteration it is in, the keepalive thread the ping it is sleeping towards. The loops
  do not stop at once; they stop at their next test of the flag.
\<close>

theorem stopped_thread_sends_once:
  assumes "\<not> is_running (client w)" and "Open \<notin> set es"
  shows "sent_count i (exec loads w es) \<le> Suc (sent_count i w)"
proof -
  have "sent_count i (exec loads w es) \<le> owed i (exec loads w es)"
    by (simp add: owed_def)
  also have "\<dots> \<le> owed i w"
    using assms by (rule owed_exec)
  also have "\<dots> \<le> Suc (sent_count i w)"
    using budget_le_1 [of "threads w ! i"] by (simp add: owed_def)
  finally show ?thesis .
qed

theorem stopped_thread_sends_once_witness:
  "\<not> is_running (client (exec (\<lambda>s. None) (init_world loopback_codec)
      [Open, Step 0 None, Step 0 None, Capture pcm0, Error])) \<and>
   Open \<notin> set [Tick (3 / 50), Step 0 None, Step 0 None, Step 0 None] \<and>
   sent_count 0 (exec (\<lambda>s. None) (exec (\<lambda>s. None) (init_world loopback_codec)
      [Open, Step 0 None, Step 0 None, Capture pcm0, Error])
      [Tick (3 / 50), Step 0 None, Step 0 None, Step 0 None]) = 1"
proof -
  let ?w = "exec (\<lambda>s. None) (init_world loopback_codec)
      [Open, Step 0 None, Step 0 None, Capture pcm0, Error]"
  let ?es = "[Tick (3 / 50), Step 0 None, Step 0 None, Step 0 None]"
  have stopped: "\<not> is_running (client ?w)"
    by (simp add: run_defs)
  have "sent_count 0 (exec (\<lambda>s. None) ?w ?es) = 1"
    using cut_run_wire [of "\<lambda>s. None"]
    by (simp only: exec_append sent_count_def) (simp add: sent_by_def)
  with stopped_thread_sends_once [OF stopped, of ?es 0 "\<lambda>s. None"] stopped show ?thesis
    by simp
qed

end
