(* ===== verification/Stall.thy ===== *)
theory Stall
  imports Ordering
begin

text \<open>
  Two ways in which the send side fails to make progress. First, the send loop
  computes its sleep from \<^verbatim>\<open>last_send\<close>, which only a transmission renews
  (\<^verbatim>\<open>src/main.py\<close>, lines 173 to 182): once a period has passed and the capture queue is
  empty, an iteration neither sleeps nor changes anything, so the loop polls the queue
  without pause. Second, nothing restarts a send loop that has ended: when every send
  thread has left its loop, no frame leaves the capture queue any more, and a
  microphone callback that is blocked on the full queue stays blocked until the
  connection is opened again.
\<close>

section \<open>Definitions\<close>

fun retired :: "thread \<Rightarrow> bool" where
  "retired (SendLoop pc) = (pc = S_Done)"
| "retired (Keepalive pc) = True"

definition idle :: "world \<Rightarrow> bool" where
  "idle w \<longleftrightarrow> list_all retired (threads w)"

definition stuck :: "world \<Rightarrow> bool" where
  "stuck w \<longleftrightarrow> blocked_capture w \<noteq> None \<and> q_full (input_queue (audio (client w)))"

section \<open>Polling the empty queue\<close>

lemma poll_twice:
  assumes "i < length (threads w)" and "threads w ! i = SendLoop (S_Head last_send)"
    and "is_running (client w)" and "last_send + frame_period \<le> clock w"
    and "q_items (input_queue (audio (client w))) = []"
  shows "exec loads w [Step i net, Step i net'] = w"
proof -
  from assms(1-4) have "step loads w (Step i net) = set_thread i (SendLoop (S_Body last_send)) w"
    by (simp add: thread_step_def send_head_def)
  moreover from assms(5) have "outgoing (set_thread i (SendLoop (S_Body last_send)) w) = None"
    by (simp add: outgoing_def get_input_frame_empty)
  ultimately show ?thesis
    using assms(1,2,5)
    by (simp add: thread_step_def send_body_idle set_thread_def dequeued_def set_audio_def
        get_input_frame_empty frames_of_def list_update_same_conv)
qed

section \<open>No sender left\<close>

lemma idle_wire [simp]: "idle (w\<lparr>wire := fs\<rparr>) = idle w"
  by (simp add: idle_def)

lemma idle_set_thread: "idle w \<Longrightarrow> is_keepalive t \<Longrightarrow> idle (set_thread i t w)"
  using set_update_subset_insert [of "threads w" i t]
  by (cases t) (auto simp: idle_def list_all_iff)

lemma idle_Done: "idle w \<Longrightarrow> i < length (threads w) \<Longrightarrow> threads w ! i = SendLoop pc \<Longrightarrow> pc = S_Done"
  by (auto simp: idle_def list_all_length)

lemma idle_keepalive:
  assumes "idle w"
  shows "idle (keepalive w i pc net) \<and> taken (keepalive w i pc net) = taken w \<and>
         binary_payloads (wire (keepalive w i pc net)) = binary_payloads (wire w) \<and>
         client (keepalive w i pc net) = client w \<and>
         blocked_capture (keepalive w i pc net) = blocked_capture w"
  using assms keepalive_effect [of w i pc net]
  by (auto simp: idle_set_thread ping_frame_def)

lemma idle_thread_step:
  assumes "idle w"
  shows "idle (thread_step w i net) \<and> taken (thread_step w i net) = taken w \<and>
         binary_payloads (wire (thread_step w i net)) = binary_payloads (wire w) \<and>
         client (thread_step w i net) = client w \<and>
         blocked_capture (thread_step w i net) = blocked_capture w"
proof (cases "i < length (threads w)")
  case True
  show ?thesis
  proof (cases "threads w ! i")
    case (SendLoop pc)
    with True assms idle_Done [OF assms True] show ?thesis
      by (simp add: thread_step_def)
  next
    case (Keepalive pc)
    with True idle_keepalive [OF assms, of i pc net] show ?thesis
      by (simp add: thread_step_def)
  qed
qed (simp add: thread_step_def assms)

lemma idle_step:
  assumes "idle w" and "e \<noteq> Open"
  shows "idle (step loads w e) \<and> taken (step loads w e) = taken w \<and>
         binary_payloads (wire (step loads w e)) = binary_payloads (wire w)"
  using assms idle_thread_step [OF assms(1)]
  by (cases e) (auto simp: idle_def split: sum.splits)

lemma stuck_step:
  assumes "idle w" and "stuck w" and "e \<noteq> Open"
  shows "blocked_capture (step loads w e) = blocked_capture w \<and>
         input_queue (audio (client (step loads w e))) = input_queue (audio (client w))"
  using assms idle_thread_step [OF assms(1)]
  by (cases e)
     (auto simp: stuck_def capture_def capture_resume_full split: sum.splits
        dest: on_message_frame)

lemma idle_exec:
  assumes "idle w" and "Open \<notin> set es"
  shows "idle (exec loads w es) \<and> taken (exec loads w es) = taken w \<and>
         binary_payloads (wire (exec loads w es)) = binary_payloads (wire w)"
  using assms
proof (induction es arbitrary: w)
  case (Cons e es)
  from Cons.prems have "e \<noteq> Open" and "Open \<notin> set es" by auto
  with idle_step [OF Cons.prems(1), of e loads] Cons.IH [of "step loads w e"] show ?case
    by simp
qed simp

lemma stuck_exec:
  assumes "idle w" and "stuck w" and "Open \<notin> set es"
  shows "blocked_capture (exec loads w es) = blocked_capture w \<and>
         input_queue (audio (client (exec loads w es))) = input_queue (audio (client w))"
  using assms
proof (induction es arbitrary: w)
  case (Cons e es)
  from Cons.prems have e: "e \<noteq> Open" and es: "Open \<notin> set es" by auto
  note one = stuck_step [OF Cons.prems(1,2) e, of loads]
  with Cons.prems(2) have "stuck (step loads w e)"
    by (simp add: stuck_def)
  with idle_step [OF Cons.prems(1) e, of loads] Cons.IH [of "step loads w e"] es one show ?case
    by simp
qed simp

section \<open>The two stalls\<close>

text \<open>
  C22. The send loop polls an empty queue without pause. When a frame period has passed
  since the last transmission and the capture queue is empty, an iteration of the loop
  (the head, which finds no time left to sleep, and the body, which finds no frame)
  changes nothing and takes no time: any number of iterations can follow each other at
  the same instant, until a block is captured.
\<close>

theorem empty_queue_spins:
  assumes "i < length (threads w)" and "threads w ! i = SendLoop (S_Head last_send)"
    and "is_running (client w)" and "last_send + frame_period \<le> clock w"
    and "q_items (input_queue (audio (client w))) = []"
  shows "exec loads w (concat (replicate n [Step i net, Step i net'])) = w"
proof (induction n)
  case (Suc n)
  have "exec loads w (concat (replicate (Suc n) [Step i net, Step i net'])) =
        exec loads (exec loads w [Step i net, Step i net'])
          (concat (replicate n [Step i net, Step i net']))"
    by simp
  with Suc poll_twice [OF assms, of loads net net'] show ?case
    by (simp only:)
qed simp

theorem empty_queue_spins_witness:
  "exec (\<lambda>s. None)
     (exec (\<lambda>s. None) (init_world loopback_codec) [Open, Step 0 None, Tick 1])
     (concat (replicate 3 [Step 0 None, Step 0 None])) =
   exec (\<lambda>s. None) (init_world loopback_codec) [Open, Step 0 None, Tick 1]"
  using empty_queue_spins
    [of 0 "exec (\<lambda>s. None) (init_world loopback_codec) [Open, Step 0 None, Tick 1]" 0
        "\<lambda>s. None" 3 None None]
  by (simp add: run_defs del: exec.simps replicate.simps)
     (simp add: run_defs)

text \<open>
  C21. Without a send loop nothing drains the capture queue. When every send thread
  has left its loop, then as long as the connection is not opened again no frame is
  taken from the queue and no audio frame reaches the wire, whatever else happens;
  and a microphone callback that is blocked on the full queue stays blocked, with the
  queue as it is.
\<close>

theorem no_sender_starves_capture:
  assumes "idle w" and "Open \<notin> set es"
  shows "taken (exec loads w es) = taken w \<and>
         binary_payloads (wire (exec loads w es)) = binary_payloads (wire w) \<and>
         (stuck w \<longrightarrow>
            blocked_capture (exec loads w es) = blocked_capture w \<and>
            input_queue (audio (client (exec loads w es))) = input_queue (audio (client w)))"
  using idle_exec [OF assms] stuck_exec [OF assms(1) _ assms(2)]
  by simp

theorem no_sender_starves_capture_witness:
  "idle ((set_audio (AudioIO_ready\<lparr>input_queue := \<lparr>q_items = replicate 30 [1], q_maxsize = 30\<rparr>\<rparr>)
           (init_world loopback_codec))
          \<lparr>threads := [SendLoop S_Done, Keepalive K_Head], blocked_capture := Some [7]\<rparr>) \<and>
   Open \<notin> set [Capture [8], CaptureResume, Step 0 None, Step 1 None, Tick 25, Step 1 None, Error] \<and>
   blocked_capture (exec (\<lambda>s. None)
     ((set_audio (AudioIO_ready\<lparr>input_queue := \<lparr>q_items = replicate 30 [1], q_maxsize = 30\<rparr>\<rparr>)
        (init_world loopback_codec))
       \<lparr>threads := [SendLoop S_Done, Keepalive K_Head], blocked_capture := Some [7]\<rparr>)
     [Capture [8], CaptureResume, Step 0 None, Step 1 None, Tick 25, Step 1 None, Error]) = Some [7]"
  using no_sender_starves_capture
    [of "(set_audio (AudioIO_ready\<lparr>input_queue := \<lparr>q_items = replicate 30 [1], q_maxsize = 30\<rparr>\<rparr>)
           (init_world loopback_codec))
          \<lparr>threads := [SendLoop S_Done, Keepalive K_Head], blocked_capture := Some [7]\<rparr>"
        "[Capture [8], CaptureResume, Step 0 None, Step 1 None, Tick 25, Step 1 None, Error]"
        "\<lambda>s. None"]
  by (simp add: idle_def stuck_def q_full_def del: exec.simps)

end
