(* ===== verification/Protocol.thy ===== *)
theory Protocol
  imports Ordering
begin

text \<open>
  The shape of what the client puts on the wire. The source has two calls of
  \<^verbatim>\<open>self.ws.send\<close>: line 181 in \<^verbatim>\<open>_send_loop\<close> sends the encoded frame with
  \<^verbatim>\<open>OPCODE_BINARY\<close>, after the test of line 180 has found it non-empty, and line 192 in
  \<^verbatim>\<open>_keepalive\<close> sends the text \<^verbatim>\<open>PING\<close> with \<^verbatim>\<open>OPCODE_PING\<close>. \<open>frame_ok\<close> is the
  type of a frame on the wire that follows from this: a non-empty binary payload from
  a send thread, or the ping text from a keepalive thread, from a thread that exists.
  \<open>wire_ok\<close> is the invariant that carries it: every frame on the wire has that type and
  no send thread holds an empty frame for transmission.
\<close>

section \<open>Definitions\<close>

fun frame_ok :: "nat \<Rightarrow> wire_frame \<Rightarrow> bool" where
  "frame_ok n (t, i, OPCODE_BINARY, Bytes b) = (b \<noteq> [] \<and> even i \<and> i < n)"
| "frame_ok n (t, i, OPCODE_PING, Str s) = (s = ''PING'' \<and> odd i \<and> i < n)"
| "frame_ok n (t, i, opc, d) = False"

definition wire_ok :: "world \<Rightarrow> bool" where
  "wire_ok w \<longleftrightarrow>
     list_all (frame_ok (length (threads w))) (wire w) \<and> (\<forall>i. [] \<notin> set (pending w i))"

section \<open>Frames\<close>

lemma frame_ok_mono: "frame_ok n f \<Longrightarrow> n \<le> m \<Longrightarrow> frame_ok m f"
  by (induction n f rule: frame_ok.induct) auto

lemma frame_ok_audio:
  "frame_ok n (audio_frame w i opus) \<longleftrightarrow> opus \<noteq> [] \<and> even i \<and> i < n"
  by (simp add: audio_frame_def)

lemma frame_ok_ping: "frame_ok n (ping_frame w i) \<longleftrightarrow> odd i \<and> i < n"
  by (simp add: ping_frame_def)

section \<open>The invariant\<close>

lemma wire_ok_cong:
  "threads w' = threads w \<Longrightarrow> wire w' = wire w \<Longrightarrow> wire_ok w' = wire_ok w"
  by (simp add: wire_ok_def pending_def)

lemma wire_ok_init: "wire_ok (init_world oc)"
  by (simp add: wire_ok_def pending_def)

lemma wire_ok_set_thread:
  assumes "wire_ok w" and "[] \<notin> set (inflight t)"
  shows "wire_ok (set_thread i t w)"
  using assms by (simp add: wire_ok_def pending_set_thread)

lemma wire_ok_frame:
  assumes "wire_ok w" and "frame_ok (length (threads w)) f"
  shows "wire_ok (w\<lparr>wire := wire w @ [f]\<rparr>)"
  using assms by (simp add: wire_ok_def)

lemma wire_ok_dequeued [simp]: "wire_ok (dequeued w) = wire_ok w"
  by (rule wire_ok_cong) simp_all

lemma wire_ok_on_open: "wire_ok w \<Longrightarrow> wire_ok (on_open w)"
  by (auto simp: wire_ok_def on_open_def pending_def list_all_iff nth_append less_Suc_eq
      intro: frame_ok_mono)

lemma wire_ok_holds:
  "wire_ok w \<Longrightarrow> i < length (threads w) \<Longrightarrow> threads w ! i = SendLoop (S_Send opus) \<Longrightarrow>
   opus \<noteq> []"
  by (auto simp: wire_ok_def pending_def dest!: spec [of _ i])

lemma owners_ok_parity:
  "owners_ok w \<Longrightarrow> i < length (threads w) \<Longrightarrow> is_keepalive (threads w ! i) \<longleftrightarrow> odd i"
  by (simp add: owners_ok_def)

lemma wire_ok_thread_step:
  assumes "wire_ok w" and "owners_ok w"
  shows "wire_ok (thread_step w i net)"
proof (rule thread_step_cases [of w i net])
  fix last_send
  assume "thread_step w i net = send_body w i last_send"
  with assms(1) show ?thesis
    by (rule_tac send_body_cases [of w i last_send]) (simp_all add: wire_ok_set_thread)
next
  fix opus
  assume i: "i < length (threads w)" and pc: "threads w ! i = SendLoop (S_Send opus)"
    and eq: "thread_step w i net =
      set_thread i (SendLoop S_Stamp) (w\<lparr>wire := wire w @ [audio_frame w i opus]\<rparr>)"
  from owners_ok_parity [OF assms(2) i] pc have "even i"
    by simp
  with wire_ok_holds [OF assms(1) i pc] i show ?thesis
    unfolding eq by (intro wire_ok_set_thread wire_ok_frame assms(1)) (simp_all add: frame_ok_audio)
next
  assume i: "i < length (threads w)" and "is_keepalive (threads w ! i)"
    and eq: "thread_step w i net =
      set_thread i (Keepalive K_Head) (w\<lparr>wire := wire w @ [ping_frame w i]\<rparr>)"
  with owners_ok_parity [OF assms(2) i] show ?thesis
    unfolding eq by (intro wire_ok_set_thread wire_ok_frame assms(1)) (simp_all add: frame_ok_ping)
qed (simp_all add: assms(1) wire_ok_set_thread)

lemma wire_ok_step: "wire_ok w \<Longrightarrow> owners_ok w \<Longrightarrow> wire_ok (step loads w e)"
  by (cases e)
     (simp_all add: wire_ok_thread_step wire_ok_on_open
        wire_ok_cong [of "capture w _" w] wire_ok_cong [of "capture_resume w" w]
        wire_ok_cong [of "w\<lparr>client := _\<rparr>" w] wire_ok_cong [of "w\<lparr>clock := _\<rparr>" w]
        split: sum.splits)

lemma reachable_wire_ok: "reachable loads oc w \<Longrightarrow> wire_ok w"
  by (induction rule: reachable.induct)
     (simp_all add: wire_ok_init wire_ok_step reachable_owners_ok)

section \<open>The type of the outbound stream\<close>

text \<open>
  C12. Every frame the client has put on the wire, in any run, is well formed: it is
  either a binary frame with a non-empty payload sent by a send thread, or the text
  \<^verbatim>\<open>PING\<close> with the ping opcode sent by a keepalive thread, and its sender is one of
  the threads that were started. No empty audio frame and no other kind of message is
  ever transmitted.
\<close>

theorem wire_well_formed:
  "list_all (frame_ok (length (threads (exec loads (init_world oc) es))))
     (wire (exec loads (init_world oc) es))"
  using reachable_wire_ok [OF reachable_run [of loads oc es]]
  by (simp add: wire_ok_def)

end
