(* ===== verification/Echo.thy ===== *)
theory Echo
  imports Protocol
begin

text \<open>
  The outbound and the inbound path composed: what one client captures, encodes and
  sends, a peer that runs the same dispatcher with the same codec decodes and plays.
  \<open>echo\<close> turns the audio frames of a wire into the messages the transport of the peer
  delivers, each accepted by its device. \<open>through\<close> is what the two paths make of one
  captured block: the block the peer plays, if the sender transmits it and the peer can
  decode it. \<open>lossless\<close> says of a codec and a list of blocks that decoding what the
  encoder made of a block gives the block back; the library does not promise it, so it
  is a hypothesis where it is used.
\<close>

section \<open>Definitions\<close>

definition echo :: "wire_frame list \<Rightarrow> (payload \<times> audio_error option) list" where
  "echo fs = map (\<lambda>b. (Bytes b, None)) (binary_payloads fs)"

definition through :: "opus_codec \<Rightarrow> bytes \<Rightarrow> bytes option" where
  "through oc pcm =
     (case sendable oc pcm of
        None \<Rightarrow> None
      | Some opus \<Rightarrow>
          (case decode oc opus of
             None \<Rightarrow> None
           | Some pcm' \<Rightarrow> if pcm' = [] then None else Some pcm'))"

definition lossless :: "opus_codec \<Rightarrow> bytes list \<Rightarrow> bool" where
  "lossless oc pcms \<longleftrightarrow>
     list_all (\<lambda>pcm. case encode oc pcm of None \<Rightarrow> True | Some opus \<Rightarrow> decode oc opus = Some pcm)
       pcms"

section \<open>Decoding what was encoded\<close>

lemma played_of_subseq:
  "subseq bs bs' \<Longrightarrow>
   subseq (played_of oc (map (\<lambda>b. (Bytes b, None)) bs))
     (played_of oc (map (\<lambda>b. (Bytes b, None)) bs'))"
  by (induction rule: list_emb.induct) (auto split: option.splits)

lemma sendable_Some_iff:
  "sendable oc pcm = Some opus \<longleftrightarrow> pcm \<noteq> [] \<and> encode oc pcm = Some opus \<and> opus \<noteq> []"
  by (auto simp: sendable_def split: option.splits)

lemma played_of_encodings:
  "played_of oc (map (\<lambda>b. (Bytes b, None)) (encodings oc pcms)) =
     List.map_filter (through oc) pcms"
  by (induction pcms)
     (auto simp: encodings_Cons through_def map_filter_simps split: option.splits)

lemma echo_subseq:
  assumes "subseq bs (encodings oc pcms)"
  shows "subseq (played_of oc (map (\<lambda>b. (Bytes b, None)) bs)) (List.map_filter (through oc) pcms)"
  using played_of_subseq [OF assms, of oc] by (simp only: played_of_encodings)

lemma lossless_Cons:
  "lossless oc (pcm # pcms) \<longleftrightarrow>
     (\<forall>opus. encode oc pcm = Some opus \<longrightarrow> decode oc opus = Some pcm) \<and> lossless oc pcms"
  by (auto simp: lossless_def split: option.splits)

lemma through_lossless:
  "lossless oc pcms \<Longrightarrow>
   List.map_filter (through oc) pcms = filter (\<lambda>pcm. sendable oc pcm \<noteq> None) pcms"
proof (induction pcms)
  case (Cons pcm pcms)
  from Cons.prems have rest: "lossless oc pcms"
    by (simp add: lossless_Cons)
  show ?case
  proof (cases "sendable oc pcm")
    case None
    with Cons.IH [OF rest] show ?thesis
      by (simp add: through_def map_filter_simps)
  next
    case (Some opus)
    then have "pcm \<noteq> []" and "encode oc pcm = Some opus"
      by (simp_all add: sendable_Some_iff)
    with Cons.prems have "decode oc opus = Some pcm" and "pcm \<noteq> []"
      by (simp_all add: lossless_Cons)
    with Some Cons.IH [OF rest] show ?thesis
      by (simp add: through_def map_filter_simps)
  qed
qed (simp add: map_filter_simps)

lemma through_lossless_subseq:
  "lossless oc pcms \<Longrightarrow> subseq (List.map_filter (through oc) pcms) pcms"
  by (simp only: through_lossless subseq_filter_left)

lemma lossless_loopback: "lossless loopback_codec pcms"
  by (induction pcms) (auto simp: lossless_Cons loopback_codec_def codec_defs lossless_def)

section \<open>Round trip through the codec and the wire\<close>

text \<open>
  C13. What is captured is what is played. In a single session, a peer that receives
  the audio frames of the wire in order and dispatches them with the same codec plays
  what encoder and decoder make of captured blocks, in the order of their capture and
  none of them twice; with a codec that is lossless on the captured blocks it plays
  captured blocks themselves.
\<close>

theorem echo_plays_captured:
  assumes "count_list es Open \<le> 1"
  shows "subseq
           (speaker (audio (dispatch_all loads' (AudioClient_ready oc)
              (echo (wire (exec loads (init_world oc) es))))))
           (List.map_filter (through oc) (captured (exec loads (init_world oc) es))) \<and>
         (lossless oc (captured (exec loads (init_world oc) es)) \<longrightarrow>
          subseq
            (speaker (audio (dispatch_all loads' (AudioClient_ready oc)
               (echo (wire (exec loads (init_world oc) es))))))
            (captured (exec loads (init_world oc) es)))"
proof -
  let ?w = "exec loads (init_world oc) es"
  let ?played = "speaker (audio (dispatch_all loads' (AudioClient_ready oc) (echo (wire ?w))))"
  from order_ok_captured_sub [OF reachable_order_ok [OF reachable_run [of loads oc es]], of 0]
  have "subseq (binary_payloads (wire ?w)) (encodings oc (captured ?w))"
    by (simp add: single_session_payloads [OF assms])
  from echo_subseq [OF this]
  have played: "subseq ?played (List.map_filter (through oc) (captured ?w))"
    using dispatch_all_speaker [of "AudioClient_ready oc" loads'] by (simp add: echo_def)
  then show ?thesis
    by (auto dest: through_lossless_subseq intro: subseq_order.trans)
qed

theorem echo_plays_captured_witness:
  "count_list steady_run Open \<le> 1 \<and>
   lossless loopback_codec (captured (exec (\<lambda>s. None) (init_world loopback_codec) steady_run)) \<and>
   subseq
     (speaker (audio (dispatch_all (\<lambda>s. None) (AudioClient_ready loopback_codec)
        (echo (wire (exec (\<lambda>s. None) (init_world loopback_codec) steady_run))))))
     (captured (exec (\<lambda>s. None) (init_world loopback_codec) steady_run))"
  using echo_plays_captured [of steady_run "\<lambda>s. None" loopback_codec "\<lambda>s. None"]
  by (simp add: lossless_loopback) (simp add: steady_run_def)

end
