(* ===== verification/Progress.thy ===== *)
theory Progress
  imports Pacing Ordering
begin

text \<open>
  The send loop under a scheduler that lets it run whenever it can: the throughput the
  pacing allows is attained. \<open>cycle\<close> is one iteration of \<^verbatim>\<open>_send_loop\<close> (lines 171 to
  182) as the events of one thread: the head of the loop, which finds the whole period
  left to sleep; the passing of the period; the wake-up; the body, which takes a frame
  and encodes it; the transmission, which the network accepts; the reading of the
  clock into \<^verbatim>\<open>last_send\<close>. \<open>ready\<close> says that thread \<open>i\<close> is at the head of its loop
  with \<^verbatim>\<open>last_send\<close> equal to the clock, the connection is up, and the capture queue
  starts with the given blocks, each of which the codec can encode. \<open>paced_frames\<close> is
  the wire that results: one frame per period.
\<close>

section \<open>Definitions\<close>

definition cycle :: "nat \<Rightarrow> event list" where
  "cycle i = [Step i None, Tick frame_period, Step i None, Step i None, Step i None, Step i None]"

fun cycles :: "nat \<Rightarrow> nat \<Rightarrow> event list" where
  "cycles i 0 = []"
| "cycles i (Suc n) = cycle i @ cycles i n"

definition ready :: "world \<Rightarrow> nat \<Rightarrow> bytes list \<Rightarrow> bool" where
  "ready w i pcms \<longleftrightarrow>
     i < length (threads w) \<and> threads w ! i = SendLoop (S_Head (clock w)) \<and>
     is_running (client w) \<and> ws (client w) \<noteq> None \<and>
     prefix pcms (q_items (input_queue (audio (client w)))) \<and>
     list_all (\<lambda>pcm. sendable (codec (client w)) pcm \<noteq> None) pcms"

fun paced_frames :: "seconds \<Rightarrow> nat \<Rightarrow> bytes list \<Rightarrow> wire_frame list" where
  "paced_frames t i [] = []"
| "paced_frames t i (b # bs) =
     (t + frame_period, i, OPCODE_BINARY, Bytes b) # paced_frames (t + frame_period) i bs"

section \<open>One iteration\<close>

lemma thread_step_send_loop:
  "i < length (threads w) \<Longrightarrow> threads w ! i = SendLoop pc \<Longrightarrow>
   thread_step w i net = send_loop w i pc net"
  by (simp add: thread_step_def)

lemma ready_Cons:
  "ready w i (pcm # pcms) \<longleftrightarrow>
     i < length (threads w) \<and> threads w ! i = SendLoop (S_Head (clock w)) \<and>
     is_running (client w) \<and> ws (client w) \<noteq> None \<and>
     (\<exists>rest. q_items (input_queue (audio (client w))) = pcm # pcms @ rest) \<and>
     sendable (codec (client w)) pcm \<noteq> None \<and>
     list_all (\<lambda>pcm. sendable (codec (client w)) pcm \<noteq> None) pcms"
  by (auto simp: ready_def prefix_def)

text \<open>The world after one iteration, step by step.\<close>

lemma cycle_exec:
  assumes "ready w i (pcm # pcms)" and "sendable (codec (client w)) pcm = Some opus"
  shows "exec loads w (cycle i) =
           set_thread i (SendLoop (S_Head (clock w + frame_period)))
             ((dequeued w)\<lparr>clock := clock w + frame_period,
                wire := wire w @ [(clock w + frame_period, i, OPCODE_BINARY, Bytes opus)]\<rparr>)"
proof -
  from assms(1) obtain rest where i: "i < length (threads w)"
    and pc: "threads w ! i = SendLoop (S_Head (clock w))"
    and run: "is_running (client w)" and ws: "ws (client w) \<noteq> None"
    and items: "q_items (input_queue (audio (client w))) = pcm # pcms @ rest"
    by (auto simp: ready_Cons)
  define w1 where "w1 = set_thread i (SendLoop (S_Sleep (clock w) (clock w + frame_period))) w"
  define w2 where
    "w2 = set_thread i (SendLoop (S_Body (clock w))) (w1\<lparr>clock := clock w + frame_period\<rparr>)"
  define w3 where "w3 = set_thread i (SendLoop (S_Send opus)) (dequeued w2)"
  define w4 where
    "w4 = set_thread i (SendLoop S_Stamp) (w3\<lparr>wire := wire w3 @ [audio_frame w3 i opus]\<rparr>)"
  note ws = w1_def w2_def w3_def w4_def
  have s1: "step loads w (Step i None) = w1"
    using i pc run by (simp add: thread_step_send_loop send_head_eq head_pc_def w1_def)
  have s2: "step loads (step loads w1 (Tick frame_period)) (Step i None) = w2"
    using i by (simp add: thread_step_def w1_def w2_def set_thread_def)
  have "outgoing w2 = Some opus"
    using items assms(2) by (simp add: outgoing_def get_input_frame_Cons ws)
  from send_body_ready [OF this] have s3: "step loads w2 (Step i None) = w3"
    using i by (simp add: thread_step_def ws)
  have s4: "step loads w3 (Step i None) = w4"
    using i \<open>ws (client w) \<noteq> None\<close> by (simp add: thread_step_def ws send_frame_sent)
  have "step loads w4 (Step i None) = set_thread i (SendLoop (S_Head (clock w4))) w4"
    using i by (simp add: thread_step_def ws)
  with s1 s2 s3 s4 show ?thesis
    by (simp add: cycle_def del: step.simps)
       (simp add: ws set_thread_def dequeued_def set_audio_def audio_frame_def)
qed

lemma cycle_sends:
  assumes "ready w i (pcm # pcms)" and "sendable (codec (client w)) pcm = Some opus"
  shows "ready (exec loads w (cycle i)) i pcms"
    and "wire (exec loads w (cycle i)) =
           wire w @ [(clock w + frame_period, i, OPCODE_BINARY, Bytes opus)]"
    and "clock (exec loads w (cycle i)) = clock w + frame_period"
    and "codec (client (exec loads w (cycle i))) = codec (client w)"
    and "taken (exec loads w (cycle i)) = taken w @ [pcm]"
    and "captured (exec loads w (cycle i)) = captured w"
proof -
  from assms(1) obtain rest where "q_items (input_queue (audio (client w))) = pcm # pcms @ rest"
    by (auto simp: ready_Cons)
  note get_input_frame_Cons [OF this, simp]
  from assms(1) show "ready (exec loads w (cycle i)) i pcms"
    by (simp add: cycle_exec [OF assms] ready_def)
  show "taken (exec loads w (cycle i)) = taken w @ [pcm]"
    by (simp add: cycle_exec [OF assms] frames_of_def)
qed (simp_all add: cycle_exec [OF assms])

section \<open>Any number of iterations\<close>

lemma exec_cycles_Suc:
  "exec loads w (cycles i (Suc n)) = exec loads (exec loads w (cycle i)) (cycles i n)"
  by (simp add: exec_append)

lemma cycles_send:
  assumes "ready w i pcms" and "codec (client w) = oc"
  shows "wire (exec loads w (cycles i (length pcms))) =
           wire w @ paced_frames (clock w) i (encodings oc pcms) \<and>
         clock (exec loads w (cycles i (length pcms))) =
           clock w + real (length pcms) * frame_period \<and>
         taken (exec loads w (cycles i (length pcms))) = taken w @ pcms \<and>
         ready (exec loads w (cycles i (length pcms))) i []"
  using assms
proof (induction pcms arbitrary: w)
  case Nil
  then show ?case by simp
next
  case (Cons pcm pcms)
  from Cons.prems obtain opus where opus: "sendable (codec (client w)) pcm = Some opus"
    by (auto simp: ready_Cons)
  note one = cycle_sends [OF Cons.prems(1) opus, of loads]
  from Cons.IH [OF one(1)] one(4) Cons.prems(2)
  show ?case
    unfolding length_Cons exec_cycles_Suc
    using opus by (simp add: one(2,3,5) encodings_Cons algebra_simps)
qed

lemma length_encodings:
  "list_all (\<lambda>pcm. sendable oc pcm \<noteq> None) pcms \<Longrightarrow> length (encodings oc pcms) = length pcms"
  by (induction pcms) (auto simp: encodings_Cons)

lemma ready_encodings:
  "ready w i pcms \<Longrightarrow> length (encodings (codec (client w)) pcms) = length pcms"
  by (simp add: ready_def length_encodings)

section \<open>The rate attained\<close>

text \<open>
  C14. Progress of the send loop: when the connection is up, a send thread is at the
  head of its loop and the capture queue starts with \<open>n\<close> blocks the codec can encode,
  then \<open>n\<close> iterations of the loop, each scheduled as soon as its sleep has ended and
  each accepted by the network, put the encodings of exactly these blocks on the wire,
  in order, one per frame period, and take \<open>n\<close> periods. The lower bound on the
  distance of two frames is attained.
\<close>

theorem send_loop_attains_rate:
  assumes "ready w i pcms"
  shows "wire (exec loads w (cycles i (length pcms))) =
           wire w @ paced_frames (clock w) i (encodings (codec (client w)) pcms) \<and>
         length (encodings (codec (client w)) pcms) = length pcms \<and>
         clock (exec loads w (cycles i (length pcms))) =
           clock w + real (length pcms) * frame_period"
  using cycles_send [OF assms refl, of loads] ready_encodings [OF assms]
  by simp

theorem send_loop_attains_rate_witness:
  "ready (exec (\<lambda>s. None) (init_world loopback_codec) [Open, Capture pcm0, Capture pcm1, Step 0 None])
     0 [pcm0, pcm1] \<and>
   wire (exec (\<lambda>s. None)
          (exec (\<lambda>s. None) (init_world loopback_codec) [Open, Capture pcm0, Capture pcm1, Step 0 None])
          (cycles 0 (length [pcm0, pcm1]))) =
     [(3 / 50, 0, OPCODE_BINARY, Bytes pcm0), (3 / 25, 0, OPCODE_BINARY, Bytes pcm1)]"
proof -
  let ?w = "exec (\<lambda>s. None) (init_world loopback_codec) [Open, Capture pcm0, Capture pcm1, Step 0 None]"
  have r: "ready ?w 0 [pcm0, pcm1]"
    by (simp add: ready_def run_defs)
  have "encodings (codec (client ?w)) [pcm0, pcm1] = [pcm0, pcm1]"
    by (simp add: encodings_def map_filter_def run_defs)
  moreover have "wire ?w = []" and "clock ?w = 0"
    by (simp_all add: run_defs)
  ultimately show ?thesis
    using send_loop_attains_rate [OF r, of "\<lambda>s. None"] r
    by (simp add: frame_period_value del: exec.simps cycles.simps)
qed

end
