(* ===== verification/Fairness.thy ===== *)
theory Fairness
  imports Heartbeat
begin

text \<open>
  The two loops of the client under any fair scheduler. \<open>Pacing\<close> and \<open>Heartbeat\<close>
  bound the rates of the send loop and of the keepalive loop from above; here they are
  bounded from below. A run is \<open>fair_run\<close> for thread \<open>i\<close> with slack \<open>slack\<close> if the
  thread is never left without a step for more than \<open>slack\<close> seconds, its transmissions
  are accepted, and it finds what it needs when it is stepped (\<open>can_go\<close>): the flag set
  at the loop condition, a frame that encodes in the queue at the body of the send loop,
  a transport object at a transmission. Everything else is free: other threads, the
  microphone and the callbacks of the transport may do anything in between.
  \<open>deadline\<close> is, for each program counter, the latest time at which the next frame of
  the thread is on the wire; \<open>on_time\<close> is the invariant that the deadline moves by at
  most one \<open>period\<close> per frame: \<open>frame_period + 4 * slack\<close> for a send thread, which
  is stepped four times per frame, \<open>ping_interval + 2 * slack\<close> for a keepalive thread,
  which is stepped twice per ping.
\<close>

section \<open>Definitions\<close>

fun can_go :: "world \<Rightarrow> thread \<Rightarrow> bool" where
  "can_go w (SendLoop (S_Head last_send)) = is_running (client w)"
| "can_go w (SendLoop (S_Body last_send)) = (outgoing w \<noteq> None)"
| "can_go w (SendLoop (S_Send opus_frame)) = (ws (client w) \<noteq> None)"
| "can_go w (SendLoop S_Done) = False"
| "can_go w (Keepalive K_Head) = is_running (client w)"
| "can_go w (Keepalive (K_Sleep wake)) = (clock w < wake \<or> ws (client w) \<noteq> None)"
| "can_go w (Keepalive K_Done) = False"
| "can_go w t = True"

text \<open>\<open>seen\<close> is the time of the last step of thread \<open>i\<close>.\<close>

fun fair_run :: "json_parser \<Rightarrow> nat \<Rightarrow> seconds \<Rightarrow> world \<Rightarrow> seconds \<Rightarrow> event list \<Rightarrow> bool" where
  "fair_run loads i slack w seen [] = True"
| "fair_run loads i slack w seen (Tick d # es) =
     (0 \<le> d \<and> clock w + d \<le> seen + slack \<and>
      fair_run loads i slack (step loads w (Tick d)) seen es)"
| "fair_run loads i slack w seen (Step j net # es) =
     (if j = i
      then net = None \<and> i < length (threads w) \<and> can_go w (threads w ! i) \<and>
           fair_run loads i slack (step loads w (Step j net)) (clock w) es
      else fair_run loads i slack (step loads w (Step j net)) seen es)"
| "fair_run loads i slack w seen (e # es) = fair_run loads i slack (step loads w e) seen es"

fun deadline :: "seconds \<Rightarrow> seconds \<Rightarrow> seconds \<Rightarrow> thread \<Rightarrow> seconds" where
  "deadline slack pause seen (SendLoop (S_Head last_send)) =
     max seen (last_send + frame_period) + 3 * slack"
| "deadline slack pause seen (SendLoop (S_Sleep last_send wake)) = max seen wake + 3 * slack"
| "deadline slack pause seen (SendLoop (S_Body last_send)) = seen + 2 * slack"
| "deadline slack pause seen (SendLoop (S_Send opus_frame)) = seen + slack"
| "deadline slack pause seen (SendLoop pc) = seen + frame_period + 4 * slack"
| "deadline slack pause seen (Keepalive (K_Sleep wake)) = max seen wake + slack"
| "deadline slack pause seen (Keepalive pc) = seen + pause + 2 * slack"

definition period :: "bool \<Rightarrow> seconds \<Rightarrow> seconds \<Rightarrow> seconds" where
  "period k slack pause = (if k then pause + 2 * slack else frame_period + 4 * slack)"

definition sent :: "nat \<Rightarrow> world \<Rightarrow> nat" where
  "sent i w = length (send_times i (wire w))"

definition pinged :: "nat \<Rightarrow> world \<Rightarrow> nat" where
  "pinged i w = length (ping_times i (wire w))"

definition emitted :: "bool \<Rightarrow> nat \<Rightarrow> world \<Rightarrow> nat" where
  "emitted k i w = (if k then pinged i w else sent i w)"

text \<open>
  The invariant for thread \<open>i\<close>, of kind \<open>k\<close> (true for a keepalive thread), in a
  client whose ping interval is \<open>pause\<close>.
\<close>

definition on_time :: "bool \<Rightarrow> nat \<Rightarrow> nat \<Rightarrow> seconds \<Rightarrow> seconds \<Rightarrow> seconds \<Rightarrow> world \<Rightarrow> bool" where
  "on_time k pause i slack due seen w \<longleftrightarrow>
     i < length (threads w) \<and> is_keepalive (threads w ! i) = k \<and>
     ping_interval (client w) = pause \<and> seen \<le> clock w \<and> clock w \<le> seen + slack \<and>
     deadline slack (real pause) seen (threads w ! i) \<le>
       due + real (emitted k i w) * period k slack (real pause)"

section \<open>The deadline\<close>

lemma deadline_ge: "0 \<le> slack \<Longrightarrow> 0 \<le> pause \<Longrightarrow> seen + slack \<le> deadline slack pause seen t"
  by (cases "(slack, pause, seen, t)" rule: deadline.cases) simp_all

lemma on_time_clock:
  assumes "on_time k pause i slack due seen w" and "0 \<le> slack"
  shows "clock w \<le> due + real (emitted k i w) * period k slack (real pause)"
proof -
  from assms(1) have "clock w \<le> seen + slack" by (simp add: on_time_def)
  also from assms(2) have "\<dots> \<le> deadline slack (real pause) seen (threads w ! i)"
    by (rule deadline_ge) simp
  also from assms(1) have "\<dots> \<le> due + real (emitted k i w) * period k slack (real pause)"
    by (simp add: on_time_def)
  finally show ?thesis .
qed

lemma emitted_cong:
  "sent i w' = sent i w \<Longrightarrow> pinged i w' = pinged i w \<Longrightarrow> emitted k i w' = emitted k i w"
  by (simp add: emitted_def)

lemma on_time_cong:
  assumes "on_time k pause i slack due seen w" and "length (threads w) \<le> length (threads w')"
    and "threads w' ! i = threads w ! i" and "clock w' = clock w"
    and "sent i w' = sent i w" and "pinged i w' = pinged i w"
    and "ping_interval (client w') = ping_interval (client w)"
  shows "on_time k pause i slack due seen w'"
  using assms by (simp add: on_time_def emitted_cong [of i w' w])

section \<open>One step of the thread\<close>

lemma sent_simps [simp]:
  "sent i (w\<lparr>threads := ts\<rparr>) = sent i w"
  "sent i (set_thread j t w) = sent i w"
  "sent i (dequeued w) = sent i w"
  "sent i (w\<lparr>wire := wire w @ [audio_frame w j opus]\<rparr>) = (if j = i then Suc (sent i w) else sent i w)"
  "sent i (w\<lparr>wire := wire w @ [ping_frame w j]\<rparr>) = sent i w"
  by (simp_all add: sent_def audio_frame_def ping_frame_def send_times_def binary_by_def)

lemma pinged_simps [simp]:
  "pinged i (w\<lparr>threads := ts\<rparr>) = pinged i w"
  "pinged i (set_thread j t w) = pinged i w"
  "pinged i (dequeued w) = pinged i w"
  "pinged i (w\<lparr>wire := wire w @ [audio_frame w j opus]\<rparr>) = pinged i w"
  "pinged i (w\<lparr>wire := wire w @ [ping_frame w j]\<rparr>) = (if j = i then Suc (pinged i w) else pinged i w)"
  by (simp_all add: pinged_def audio_frame_def ping_frame_def)

lemma on_time_moved:
  assumes "on_time k pause i slack due seen w" and "threads w' = (threads w)[i := t]"
    and "is_keepalive t = is_keepalive (threads w ! i)"
    and "deadline slack (real pause) (clock w) t \<le> deadline slack (real pause) seen (threads w ! i)"
    and "clock w' = clock w" and "sent i w' = sent i w" and "pinged i w' = pinged i w"
    and "ping_interval (client w') = ping_interval (client w)" and "0 \<le> slack"
  shows "on_time k pause i slack due (clock w) w'"
  using assms by (auto simp: on_time_def emitted_cong [of i w' w])

lemma on_time_emitted:
  assumes "on_time k pause i slack due seen w" and "threads w' = (threads w)[i := t]"
    and "is_keepalive t = is_keepalive (threads w ! i)"
    and "deadline slack (real pause) (clock w) t = clock w + period k slack (real pause)"
    and "emitted k i w' = Suc (emitted k i w)"
    and "clock w' = clock w" and "ping_interval (client w') = ping_interval (client w)"
    and "0 \<le> slack"
  shows "on_time k pause i slack due (clock w) w'"
proof -
  let ?L = "period k slack (real pause)"
  from assms(1,8) have "clock w \<le> due + real (emitted k i w) * ?L"
    by (rule on_time_clock)
  then have "clock w + ?L \<le> due + real (Suc (emitted k i w)) * ?L"
    by (simp add: algebra_simps)
  with assms show ?thesis
    by (simp add: on_time_def)
qed

lemma on_time_head:
  assumes "on_time k pause i slack due seen w" and "threads w ! i = SendLoop (S_Head last_send)"
    and "is_running (client w)" and "0 \<le> slack"
  shows "on_time k pause i slack due (clock w) (send_head w i last_send)"
  using assms(1)
proof (rule on_time_moved)
  from assms show "deadline slack (real pause) (clock w) (SendLoop (head_pc w last_send)) \<le>
      deadline slack (real pause) seen (threads w ! i)"
    by (auto simp: head_pc_def on_time_def)
qed (use assms in \<open>simp_all add: send_head_eq set_thread_def head_pc_def\<close>)

lemma on_time_sleep:
  assumes "on_time k pause i slack due seen w" and "threads w ! i = SendLoop (S_Sleep last_send wake)"
    and "0 \<le> slack"
  shows "on_time k pause i slack due (clock w) (send_loop w i (S_Sleep last_send wake) net)"
proof (cases "wake \<le> clock w")
  case True
  from assms(1) show ?thesis
    by (rule on_time_moved) (use assms True in \<open>auto simp: set_thread_def on_time_def\<close>)
next
  case False
  with assms show ?thesis by (auto simp: on_time_def)
qed

lemma on_time_body:
  assumes "on_time k pause i slack due seen w" and "threads w ! i = SendLoop (S_Body last_send)"
    and "outgoing w \<noteq> None" and "0 \<le> slack"
  shows "on_time k pause i slack due (clock w) (send_body w i last_send)"
proof -
  from assms(3) obtain opus where "outgoing w = Some opus" by auto
  then have "send_body w i last_send = set_thread i (SendLoop (S_Send opus)) (dequeued w)"
    by (rule send_body_ready)
  with assms(1) show ?thesis
    by (rule_tac on_time_moved) (use assms in \<open>auto simp: set_thread_def on_time_def\<close>)
qed

lemma on_time_send:
  assumes "on_time k pause i slack due seen w" and "threads w ! i = SendLoop (S_Send opus)"
    and "ws (client w) \<noteq> None" and "0 \<le> slack"
  shows "on_time k pause i slack due (clock w) (send_frame w i opus None)"
  using assms(1)
  by (rule on_time_emitted [where t = "SendLoop S_Stamp"])
     (use assms in \<open>auto simp: send_frame_sent set_thread_def on_time_def period_def emitted_def\<close>)

lemma on_time_restart:
  assumes "on_time k pause i slack due seen w"
    and "threads w ! i = SendLoop S_Start \<or> threads w ! i = SendLoop S_Stamp" and "0 \<le> slack"
  shows "on_time k pause i slack due (clock w) (set_thread i (SendLoop (S_Head (clock w))) w)"
  using assms(1)
  by (rule on_time_moved) (use assms in \<open>auto simp: set_thread_def on_time_def\<close>)

lemma on_time_send_loop:
  assumes "on_time k pause i slack due seen w" and "threads w ! i = SendLoop pc"
    and "can_go w (threads w ! i)" and "0 \<le> slack"
  shows "on_time k pause i slack due (clock w) (send_loop w i pc None)"
  using assms
  by (cases pc)
     (simp_all add: on_time_head on_time_sleep on_time_body on_time_send on_time_restart
        del: send_loop.simps(3))

lemma keepalive_pinged:
  "wake \<le> clock w \<Longrightarrow> ws (client w) \<noteq> None \<Longrightarrow>
   keepalive w i (K_Sleep wake) None =
     set_thread i (Keepalive K_Head) (w\<lparr>wire := wire w @ [ping_frame w i]\<rparr>)"
  by (auto simp: ws_send_def ping_frame_def)

lemma on_time_keep_head:
  assumes "on_time k pause i slack due seen w" and "threads w ! i = Keepalive K_Head"
    and "is_running (client w)" and "0 \<le> slack"
  shows "on_time k pause i slack due (clock w) (keepalive w i K_Head net)"
  using assms(1)
  by (rule on_time_moved) (use assms in \<open>auto simp: set_thread_def on_time_def\<close>)

lemma on_time_keep_sleep:
  assumes "on_time k pause i slack due seen w" and "threads w ! i = Keepalive (K_Sleep wake)"
    and "clock w < wake \<or> ws (client w) \<noteq> None" and "0 \<le> slack"
  shows "on_time k pause i slack due (clock w) (keepalive w i (K_Sleep wake) None)"
proof (cases "wake \<le> clock w")
  case True
  from assms(1) show ?thesis
    by (rule on_time_emitted [where t = "Keepalive K_Head"])
       (use assms True in
         \<open>auto simp: keepalive_pinged set_thread_def on_time_def period_def emitted_def
            simp del: keepalive.simps\<close>)
next
  case False
  with assms show ?thesis by (auto simp: on_time_def)
qed

lemma on_time_keepalive:
  assumes "on_time k pause i slack due seen w" and "threads w ! i = Keepalive pc"
    and "can_go w (threads w ! i)" and "0 \<le> slack"
  shows "on_time k pause i slack due (clock w) (keepalive w i pc None)"
  using assms
  by (cases pc) (simp_all add: on_time_keep_head on_time_keep_sleep del: keepalive.simps)

lemma on_time_thread_step:
  assumes "on_time k pause i slack due seen w" and "can_go w (threads w ! i)" and "0 \<le> slack"
  shows "on_time k pause i slack due (clock w) (thread_step w i None)"
proof -
  from assms(1) have "i < length (threads w)" by (simp add: on_time_def)
  with assms show ?thesis
    by (cases "threads w ! i") (simp_all add: thread_step_def on_time_send_loop on_time_keepalive)
qed

section \<open>The steps of the others\<close>

lemma send_body_other:
  assumes "j \<noteq> i"
  shows "threads (send_body w j last_send) ! i = threads w ! i"
    and "sent i (send_body w j last_send) = sent i w"
    and "pinged i (send_body w j last_send) = pinged i w"
  by (rule send_body_cases [of w j last_send]; use assms in \<open>simp add: set_thread_def\<close>)+

lemma thread_step_other:
  assumes "j \<noteq> i"
  shows "threads (thread_step w j net) ! i = threads w ! i"
    and "sent i (thread_step w j net) = sent i w"
    and "pinged i (thread_step w j net) = pinged i w"
  by (rule thread_step_cases [of w j net];
      use assms in \<open>simp add: set_thread_def send_body_other\<close>)+

lemma on_time_other:
  "on_time k pause i slack due seen w \<Longrightarrow> j \<noteq> i \<Longrightarrow> on_time k pause i slack due seen (thread_step w j net)"
  by (erule on_time_cong) (simp_all add: thread_step_other)

lemma on_time_callbacks:
  assumes "on_time k pause i slack due seen w"
  shows "on_time k pause i slack due seen (capture w in_data)"
    and "on_time k pause i slack due seen (capture_resume w)"
    and "on_time k pause i slack due seen (on_open w)"
    and "ping_interval c = ping_interval (client w) \<Longrightarrow> on_time k pause i slack due seen (w\<lparr>client := c\<rparr>)"
  using assms by (auto simp: on_time_def emitted_def sent_def pinged_def nth_append)

section \<open>Fair runs\<close>

lemma on_time_tick:
  assumes "on_time k pause i slack due seen w" and "0 \<le> d" and "clock w + d \<le> seen + slack"
  shows "on_time k pause i slack due seen (step loads w (Tick d))"
  using assms by (auto simp: on_time_def emitted_def sent_def pinged_def)

lemma on_time_event:
  assumes "on_time k pause i slack due seen w" and "fair_run loads i slack w seen (e # es)"
    and "0 \<le> slack"
  shows "\<exists>seen'. on_time k pause i slack due seen' (step loads w e) \<and>
                 fair_run loads i slack (step loads w e) seen' es"
proof (cases e)
  case (Tick d)
  with assms show ?thesis
    by (intro exI [of _ seen]) (simp add: on_time_tick del: step.simps)
next
  case (Step j net)
  show ?thesis
  proof (cases "j = i")
    case True
    with assms Step show ?thesis
      by (intro exI [of _ "clock w"]) (auto simp: on_time_thread_step)
  next
    case False
    with assms Step show ?thesis
      by (intro exI [of _ seen]) (simp add: on_time_other)
  qed
qed (use assms in \<open>intro exI [of _ seen];
      simp add: on_time_callbacks on_message_ping_interval split: sum.splits\<close>)+

lemma on_time_exec:
  assumes "0 \<le> slack"
  shows "on_time k pause i slack due seen w \<Longrightarrow> fair_run loads i slack w seen es \<Longrightarrow>
         \<exists>seen'. on_time k pause i slack due seen' (exec loads w es)"
proof (induction es arbitrary: w seen)
  case Nil
  then show ?case by auto
next
  case (Cons e es)
  from on_time_event [OF Cons.prems assms] Cons.IH show ?case
    by auto
qed

text \<open>
  C15. The send loop keeps its rate under any fair scheduler. If a send thread that has
  just been started is never left without a step for more than \<open>slack\<close> seconds, its
  transmissions are accepted, the flag stays set and the queue has a frame for it
  whenever it asks, then in any time \<open>T\<close> it puts at least
  \<open>T / (frame_period + 4 * slack) - 1\<close> audio frames on the wire, whatever the other
  threads, the microphone and the transport do meanwhile. With the upper bound of
  \<open>Pacing\<close> the rate is one frame per period, up to the slack of the scheduler.
\<close>

theorem fair_send_rate:
  assumes "fair_run loads i slack w (clock w) es" and "i < length (threads w)"
    and "threads w ! i = SendLoop S_Start" and "0 \<le> slack"
  shows "clock (exec loads w es) - clock w \<le>
           (real (sent i (exec loads w es)) - real (sent i w) + 1) * (frame_period + 4 * slack)"
proof -
  let ?L = "frame_period + 4 * slack"
  from assms(2-4) have "on_time False (ping_interval (client w)) i slack
      (clock w + ?L - real (sent i w) * ?L) (clock w) w"
    by (simp add: on_time_def period_def emitted_def)
  from on_time_exec [OF assms(4) this assms(1)] obtain seen'
    where "on_time False (ping_interval (client w)) i slack
      (clock w + ?L - real (sent i w) * ?L) seen' (exec loads w es)"
    by auto
  from on_time_clock [OF this assms(4)] show ?thesis
    by (simp add: algebra_simps period_def emitted_def)
qed

theorem fair_send_rate_witness:
  "fair_run (\<lambda>s. None) 0 (3 / 50) (exec (\<lambda>s. None) (init_world loopback_codec) [Open]) 0
     [Capture pcm0, Step 0 None, Tick (3 / 50), Step 0 None, Step 1 None, Step 0 None,
      Step 0 None] \<and>
   sent 0 (exec (\<lambda>s. None) (init_world loopback_codec)
     [Open, Capture pcm0, Step 0 None, Tick (3 / 50), Step 0 None, Step 1 None, Step 0 None,
      Step 0 None]) = 1 \<and>
   clock (exec (\<lambda>s. None) (init_world loopback_codec)
     [Open, Capture pcm0, Step 0 None, Tick (3 / 50), Step 0 None, Step 1 None, Step 0 None,
      Step 0 None]) = 3 / 50"
  using fair_send_rate [of "\<lambda>s. None" 0 "3 / 50"
      "exec (\<lambda>s. None) (init_world loopback_codec) [Open]"
      "[Capture pcm0, Step 0 None, Tick (3 / 50), Step 0 None, Step 1 None, Step 0 None,
        Step 0 None]"]
  by (simp add: run_defs sent_def send_times_def binary_by_def)

text \<open>
  C16. The keepalive loop keeps its rate under any fair scheduler. If a keepalive thread
  that is at its loop condition is never left without a step for more than \<open>slack\<close>
  seconds, its pings are accepted and the flag stays set, then in any time \<open>T\<close> it
  puts at least \<open>T / (ping_interval + 2 * slack) - 1\<close> pings on the wire, whatever
  the other threads, the microphone and the transport do meanwhile. With the spacing of
  \<open>Heartbeat\<close> the rate is one ping per interval, up to the slack of the scheduler.
\<close>

theorem fair_ping_rate:
  assumes "fair_run loads i slack w (clock w) es" and "i < length (threads w)"
    and "threads w ! i = Keepalive K_Head" and "0 \<le> slack"
  shows "clock (exec loads w es) - clock w \<le>
           (real (pinged i (exec loads w es)) - real (pinged i w) + 1) *
           (real (ping_interval (client w)) + 2 * slack)"
proof -
  let ?L = "real (ping_interval (client w)) + 2 * slack"
  from assms(2-4) have "on_time True (ping_interval (client w)) i slack
      (clock w + ?L - real (pinged i w) * ?L) (clock w) w"
    by (simp add: on_time_def period_def emitted_def)
  from on_time_exec [OF assms(4) this assms(1)] obtain seen'
    where "on_time True (ping_interval (client w)) i slack
      (clock w + ?L - real (pinged i w) * ?L) seen' (exec loads w es)"
    by auto
  from on_time_clock [OF this assms(4)] show ?thesis
    by (simp add: algebra_simps period_def emitted_def)
qed

theorem fair_ping_rate_witness:
  "fair_run (\<lambda>s. None) 1 5 (exec (\<lambda>s. None) (init_world loopback_codec) [Open]) 0
     [Step 1 None, Tick 5, Step 1 None, Tick 5, Step 0 None, Step 1 None, Tick 5, Step 1 None,
      Tick 5, Step 1 None, Tick 5, Step 1 None] \<and>
   pinged 1 (exec (\<lambda>s. None) (init_world loopback_codec)
     [Open, Step 1 None, Tick 5, Step 1 None, Tick 5, Step 0 None, Step 1 None, Tick 5,
      Step 1 None, Tick 5, Step 1 None, Tick 5, Step 1 None]) = 1 \<and>
   clock (exec (\<lambda>s. None) (init_world loopback_codec)
     [Open, Step 1 None, Tick 5, Step 1 None, Tick 5, Step 0 None, Step 1 None, Tick 5,
      Step 1 None, Tick 5, Step 1 None, Tick 5, Step 1 None]) = 25"
  using fair_ping_rate [of "\<lambda>s. None" 1 5
      "exec (\<lambda>s. None) (init_world loopback_codec) [Open]"
      "[Step 1 None, Tick 5, Step 1 None, Tick 5, Step 0 None, Step 1 None, Tick 5, Step 1 None,
        Tick 5, Step 1 None, Tick 5, Step 1 None]"]
  by (simp add: run_defs pinged_def ping_times_def ping_by_def)

end
