(* ===== verification/Spec2Isabelle.thy ===== *)
theory Spec2Isabelle
  imports Prelude Config Containers Codec AudioIO Json Client Reconnect Engine Pacing Drift
    Heartbeat Ordering Conservation Lifecycle Design Shutdown Stall Protocol Echo Progress
    Fairness
begin

text \<open>
  \<^bold>\<open>A model of the duplex audio streaming client of \<^verbatim>\<open>src/main.py\<close>.\<close>

  \<^bold>\<open>The program.\<close> One Python file. \<^verbatim>\<open>OpusCodec\<close> wraps an encoder and a decoder.
  \<^verbatim>\<open>AudioIO\<close> owns a capture queue (\<^verbatim>\<open>queue.Queue\<close>, at most 30 frames) filled by
  the microphone callback, a playback deque and two device streams. \<^verbatim>\<open>AudioClient\<close>
  owns both and a transport object; the transport calls \<^verbatim>\<open>_on_open\<close>,
  \<^verbatim>\<open>_on_message\<close>, \<^verbatim>\<open>_on_error\<close> and \<^verbatim>\<open>_on_close\<close>. \<^verbatim>\<open>_on_open\<close> starts two
  threads: \<^verbatim>\<open>_send_loop\<close>, which every 60 ms takes a frame from the capture queue,
  encodes it and sends it, and \<^verbatim>\<open>_keepalive\<close>, which sends a ping every 25 s.
  \<^verbatim>\<open>run\<close> calls the transport's \<^verbatim>\<open>run_forever\<close> up to five times with delays of
  \<open>min (2 ^ retries) 30\<close> seconds between attempts.

  \<^bold>\<open>The theories\<close>, in the order of their imports.

  \<^item> \<open>Prelude\<close>: the fact collections \<open>model_defs\<close>, \<open>frame_simps\<close> and \<open>inv_intros\<close>;
    the types \<open>byte\<close>, \<open>bytes\<close> and \<open>seconds\<close>; Python's truth value of an optional
    byte string (\<open>truthy\<close>); \<open>keep_last\<close> with its algebra.
  \<^item> \<open>Config\<close>: the constants of lines 18 to 23 and the frame period of line 174.
  \<^item> \<open>Containers\<close>: \<^verbatim>\<open>queue.Queue\<close> (\<open>put\<close>, \<open>get_nowait\<close>) and
    \<^verbatim>\<open>collections.deque\<close> (\<open>deque_append\<close>, \<open>deque_extend\<close>, \<open>deque_clear\<close>) as the
    source uses them; the drop-on-overflow queue of the design (\<open>offer\<close>, \<open>take_frame\<close>);
    that \<open>put\<close> refines \<open>offer\<close> up to blocking, and that a bounded deque keeps its
    newest elements.
  \<^item> \<open>Codec\<close>: the constructor of \<^verbatim>\<open>OpusCodec\<close> (lines 35 to 51) as \<open>OpusCodec_init\<close>,
    over a record \<open>opus_lib\<close> of the answers of the library; \<^verbatim>\<open>encode\<close> and
    \<^verbatim>\<open>decode\<close> (lines 53 to 67) over the encoder and decoder it returned; the framing
    contract \<open>codec_framed\<close>.
  \<^item> \<open>AudioIO\<close>: the class of lines 69 to 127, one definition per method; construction
    (\<open>AudioIO_init\<close>, \<open>init_streams\<close>) over a record \<open>portaudio\<close> of the answers of the
    device library, with the object that is left when it fails; the invariant
    \<open>audio_ok\<close> (both buffers within their bounds) and its preservation; the round trip
    of blocks through the capture queue.
  \<^item> \<open>Json\<close>: control message values and \<^verbatim>\<open>dict.get\<close>, \<^verbatim>\<open>dict[key]\<close> with their
    exceptions.
  \<^item> \<open>Client\<close>: \<^verbatim>\<open>AudioClient.__init__\<close> (\<open>AudioClient_init\<close>, which fails when the
    codec or the audio object cannot be built, and \<open>AudioClient_ready\<close>, the client it
    returns otherwise), \<^verbatim>\<open>_init_websocket\<close>, \<^verbatim>\<open>_on_message\<close>, \<^verbatim>\<open>_handle_audio\<close>,
    \<^verbatim>\<open>_handle_control\<close>, \<^verbatim>\<open>_on_error\<close>, \<^verbatim>\<open>_on_close\<close> and \<^verbatim>\<open>_cleanup\<close> (lines
    131 to 152 and 196 to 235); the invariant \<open>client_ok\<close>; what a run of the
    dispatcher plays; which exceptions leave the handlers.
  \<^item> \<open>Reconnect\<close>: \<^verbatim>\<open>AudioClient.run\<close> (lines 237 to 256) as \<open>run_loop\<close>, a recursive
    function whose measure is \<open>max_retries - retries\<close>, generic in the state that
    \<^verbatim>\<open>run_forever\<close> and \<^verbatim>\<open>time.sleep\<close> change. Both can end with
    \<^verbatim>\<open>KeyboardInterrupt\<close> (\<open>Interrupted\<close>, \<open>Disturbed\<close>). \<open>delays\<close> is the loop over the
    list of delays slept; its closed form (\<open>failures\<close>, \<open>ending\<close>, \<open>slept\<close>) and its
    bounds; \<open>run_loop_sim\<close>, the simulation between two instances of the loop.
  \<^item> \<open>Engine\<close>: \<^verbatim>\<open>_on_open\<close>, \<^verbatim>\<open>_send_loop\<close> and \<^verbatim>\<open>_keepalive\<close> (lines 154 to
    194) and the last lines of the file. The state is the record \<open>world\<close>: the client,
    the threads with their program counters, the clock, and three observation lists.
    \<open>step\<close> performs one \<open>event\<close>; \<open>exec\<close> a list of them; \<open>reachable\<close> is the
    inductive set of worlds; \<open>main\<close> composes \<open>run\<close> with \<open>exec\<close>, and \<open>program\<close>
    is the entry point: construction, then \<open>main\<close>. One call of \<^verbatim>\<open>run_forever\<close> is
    a list of events and its outcome; one \<^verbatim>\<open>time.sleep\<close> of the main thread is the
    list of \<open>background\<close> events (thread steps, microphone callbacks, ticks) that happen
    meanwhile and its outcome. The send loop
    is a machine with six program counters (\<open>send_pc\<close>), one per point at which
    another thread can run; \<open>thread_step_cases\<close> lists what one step of a thread can
    do, and the invariants of the later theories are proved case by case over it.
    The theory also shows that both buffers stay bounded in every run, what a failed
    transmission changes, and how a blocked microphone callback resumes.
  \<^item> \<open>Pacing\<close>: the invariant \<open>pace_ok\<close> and its preservation by every event; two
    audio frames of one send thread are at least 60 ms apart, and a thread has sent at
    most \<open>T / frame_period + 1\<close> frames by time \<open>T\<close>.
  \<^item> \<open>Drift\<close>: the invariant \<open>late_ok\<close>; a clock that is read late after a
    transmission delays every later frame of the thread by as much.
  \<^item> \<open>Heartbeat\<close>: the invariant \<open>beat_ok\<close>; two pings of one keepalive thread are
    at least 25 seconds apart.
  \<^item> \<open>Ordering\<close>: the invariants \<open>order_ok\<close> (the capture queue is first-in first-out
    and what a thread has sent follows capture order) and \<open>owners_ok\<close> (which thread
    sent which frame), and their preservation.
  \<^item> \<open>Conservation\<close>: the invariant \<open>conserve_ok\<close>, over multisets: the audio
    frames on the wire and the frames that threads hold (\<open>holding\<close>) are among the
    encodings of the frames taken from the queue, each as often as it was taken. It
    holds across reconnects, where the order does not.
  \<^item> \<open>Lifecycle\<close>: the states of the design's connection and their change with the
    callbacks (\<open>lifecycle\<close>), the flag \<^verbatim>\<open>is_running\<close> as the abstraction "the state
    is \<open>Open\<close>", the number of releases of the audio device, threads across a
    reconnect, and the exit of the loops: a thread that is awake leaves its loop within
    five of its steps once the flag is cleared (\<open>steps_left\<close> is the measure).
  \<^item> \<open>Design\<close>: the connection lifecycle of the design in full, from its section
    4.3: the record \<open>machine\<close> (state, retry budget, loops, cleanups), the relation
    \<open>transition\<close> with one rule per transition, the same machine as the function
    \<open>fire\<close>, and \<open>attainable\<close> with the invariant \<open>machine_ok\<close>. \<open>loop_trace\<close> is the
    loop of \<^verbatim>\<open>run\<close> writing down its moves as signals of the design. As long as the
    budget lasts the trace is a run of the machine; at the end of the budget the source
    sleeps once more than the machine allows, and a session that was open resets the
    budget of the machine but not the counter of the source.
  \<^item> \<open>Shutdown\<close>: what a thread still sends once the flag is cleared: at most one
    frame, the one of the iteration it is in (\<open>budget\<close>, \<open>owed\<close>).
  \<^item> \<open>Stall\<close>: two ways the send side stops making progress: the send loop polls
    an empty queue without pause once a period has passed, and when every send loop
    has ended nothing drains the capture queue, so a blocked microphone callback stays
    blocked (\<open>idle\<close>, \<open>stuck\<close>).
  \<^item> \<open>Protocol\<close>: the type of a frame on the wire (\<open>frame_ok\<close>) and the invariant
    \<open>wire_ok\<close>: only non-empty binary frames from send threads and pings from
    keepalive threads are ever transmitted.
  \<^item> \<open>Echo\<close>: the outbound path composed with the dispatcher of a peer: what is
    played is what encoder and decoder make of the captured blocks, in capture order.
  \<^item> \<open>Progress\<close>: the send loop under a scheduler that runs it as soon as it can
    (\<open>cycle\<close>, \<open>cycles\<close>): \<open>n\<close> encodable blocks in the queue are on the wire after
    \<open>n\<close> periods, one per period.
  \<^item> \<open>Fairness\<close>: the two loops under any scheduler that leaves the thread without a
    step for at most \<open>slack\<close> seconds (\<open>fair_run\<close>): the invariant \<open>on_time\<close> bounds
    the time to the next frame of the thread (\<open>deadline\<close>), so a send thread sends at
    least one frame per \<open>frame_period + 4 * slack\<close> and a keepalive thread one ping
    per \<open>ping_interval + 2 * slack\<close>, whatever else happens.
  \<^item> This theory: \<open>engine_ok\<close>, the invariants of the engine together; \<open>main\<close> is a
    run of the engine, keeps \<open>engine_ok\<close>, and refines the loop over lists
    of delays (\<open>run_loop_sim\<close> applied to the engine); when the program reaches its
    main loop, what a failed construction leaves behind, how an error that the
    transport reports without raising ends the program, and how an interrupt during
    the delay does.

  \<^bold>\<open>Conventions.\<close> An exception is a value: \<open>None\<close> or \<open>Inl e\<close>. A call that blocks
  is \<open>None\<close> (\<open>put\<close>, \<open>input_callback\<close>). Time is a real number of seconds and passes
  only in \<open>Tick\<close> events; a sleeping thread wakes no earlier than it asked to. The
  answers of the environment (does the network accept this frame, does the device accept
  this block, how do \<^verbatim>\<open>run_forever\<close> and the sleep after it end) are inputs, and the
  answers of the two libraries at construction are the fields of \<open>opus_lib\<close> and
  \<open>portaudio\<close>. Each clause of
  \<open>step\<close> is atomic; a callback runs to its end before the next event, and a thread
  advances by one program counter per \<open>Step\<close>. For the callbacks this grain loses no
  run: \<^verbatim>\<open>_on_close\<close> is the events \<open>Error\<close> and \<open>Interrupt\<close> in sequence
  (\<open>close_splits\<close> in \<open>Lifecycle\<close>), the threads that \<^verbatim>\<open>_on_open\<close> starts take their
  first step when the scheduler says, and the callbacks for messages change only the
  playback side, which no thread reads. The codec, the JSON parser and the
  devices are parameters, so the theorems hold for every behaviour of them;
  \<open>loopback_codec\<close> is a concrete codec, and \<open>steady_run\<close>, \<open>late_run\<close> and
  \<open>reconnect_run\<close> are concrete runs, for the theorems that are applied to an example.
  Logging is not modelled.

  \<^bold>\<open>Where the program and its design document differ.\<close> The theorems state what the
  code does. In these points it is not what the design asks for, and a theorem of the
  theory named in brackets says so: the capture queue blocks when full instead of
  dropping (AudioIO); the playback deque holds bytes, keeps the newest and is never
  read (AudioIO); a control message that is valid JSON but not of the expected shape
  raises out of the callback (Client); cleanup can run twice and does not run on an
  error (Client, Lifecycle); the cleanup after an interrupt stops no loop (Lifecycle);
  threads survive a reconnect, after which two send loops serve one queue and the
  order of frames is lost (Lifecycle, Ordering); a loop that has passed its test of the
  flag finishes its iteration and sends one more frame after the connection has failed
  (Shutdown); a send loop that has ended is not restarted while the connection stays
  open, and the capture side then blocks for good (Engine, Stall); the send loop does
  not wait when the queue is empty (Stall); a failed ping or a failed transmission
  does not mark the connection as failed (Engine); the period is a lower bound and
  lateness is never made up (Drift); the retry count is not reset by a successful
  open, and an error that the transport reports through the callback while
  \<^verbatim>\<open>run_forever\<close> returns is not retried at all (Design, this theory); after the
  fifth failure the source sleeps 30 seconds before it gives up, where the machine of
  the design's section 4.3 gives up at once (Design; the design's own test in section 8
  expects the five delays of the source). The design has no move for a stop that
  arrives during the delay; the source leaves \<^verbatim>\<open>run\<close> and cleans up (this theory). The design is silent on
  a construction that fails; the code releases nothing then (this theory).

  \<^bold>\<open>Bounds.\<close> \<open>run_loop\<close> needs no fuel: it terminates because \<open>retries\<close> grows
  towards \<open>max_retries = 5\<close>. The machine of the design may run forever (a session
  that opens resets its budget); it is a relation and a step function, run over the
  finite traces of the loop. The two thread loops may run forever; they are step
  functions, and their properties are invariants of \<open>reachable\<close>, not results of a
  completed run. That they end once the flag is cleared is proved with a bound of five
  steps, the longest path from a program counter to the exit. \<open>cycles i n\<close> is a
  schedule of \<open>6 * n\<close> events, six per iteration of the send loop; it is the fastest
  schedule the pacing admits, not a bound on the run. The \<open>4 * slack\<close> of \<open>Fairness\<close>
  are the four steps between two transmissions that do not wait for the clock: reading
  the clock, the loop condition, the body and the transmission; the wake-up after the
  sleep adds no fifth, because the sleep ends with the period. The \<open>2 * slack\<close> of the
  keepalive loop are its loop condition and the transmission at the wake-up.

  \<^bold>\<open>Not modelled.\<close> The internals of the three libraries (compression, device
  access, the transport's handshake, framing and its own ping and reconnect options);
  the locks inside \<^verbatim>\<open>queue.Queue\<close>; the attributes \<^verbatim>\<open>send_thread\<close> and
  \<^verbatim>\<open>keepalive_thread\<close>, which the source writes and never reads; what the transport
  library does with an exception that leaves a callback (the model leaves the world
  as it was); the end of the process, at which daemon threads are discarded.

  \<^verbatim>\<open>KeyboardInterrupt\<close> is modelled where the main thread spends its time: as an
  outcome of \<^verbatim>\<open>run_forever\<close> and as an outcome of the sleep between two attempts.
  An interrupt between two statements of \<^verbatim>\<open>run\<close>, during the construction of the
  client or during the cleanup itself is not modelled. The settings of the encoder (bit
  rate, signal type) can fail but do not change the encoder of the model. The JSON
  parser is a parameter: \<^verbatim>\<open>json.loads\<close> is library code.

  \<^bold>\<open>Left for later.\<close> The hypotheses of \<open>Fairness\<close> on the queue (a frame is there
  whenever the send loop asks) derived from a rate of the microphone, for one and for
  several send loops on one queue.
\<close>

section \<open>The invariant of the engine\<close>

text \<open>
  The invariants of the component theories together: the buffers are within their
  bounds, the wire is timed, paced and typed, the capture queue is first-in first-out,
  every frame has an owner and was captured as often as it was sent, and pings keep
  their interval.
\<close>

definition engine_ok :: "opus_codec \<Rightarrow> world \<Rightarrow> bool" where
  "engine_ok oc w \<longleftrightarrow>
     client_ok (client w) \<and> pace_ok w \<and> epoch_ok w \<and> order_ok oc w \<and> owners_ok w \<and>
     conserve_ok oc w \<and> wire_ok w \<and> beat_ok w"

lemma reachable_engine_ok: "reachable loads oc w \<Longrightarrow> engine_ok oc w"
  unfolding engine_ok_def
  by (intro conjI reachable_client_ok reachable_pace_ok reachable_epoch_ok reachable_order_ok
      reachable_owners_ok reachable_conserve_ok reachable_wire_ok reachable_beat_ok)

section \<open>The program as a whole\<close>

text \<open>
  What happens while the main thread sleeps is a list of events that ends with a tick
  of the clock, and the cleanup after \<^verbatim>\<open>KeyboardInterrupt\<close> is the event \<open>Interrupt\<close>;
  so everything \<open>main\<close> does is a run of the engine.
\<close>

lemma clock_raise: "w\<lparr>clock := max (clock w) t\<rparr> = step loads w (Tick (max (clock w) t - clock w))"
  by simp

lemma sleep_cases [case_names rested disturbed]:
  assumes "sleep loads nps n delay w = (b, w')"
  obtains "b = Rested" and "snd (nps n) = Rested"
      and "w' = step loads (exec loads w (filter background (fst (nps n))))
             (Tick (max (clock (exec loads w (filter background (fst (nps n)))))
                        (clock w + real delay) -
                    clock (exec loads w (filter background (fst (nps n))))))"
    | "b = Disturbed" and "snd (nps n) = Disturbed"
      and "w' = exec loads w (filter background (fst (nps n)))"
  using assms by (cases "snd (nps n)") (auto simp: sleep_def Let_def)

lemma reachable_run_forever:
  "reachable loads oc w \<Longrightarrow> run_forever loads sched i w = (a, w') \<Longrightarrow> reachable loads oc w'"
  by (auto simp: run_forever_def reachable_exec)

lemma reachable_sleep:
  "reachable loads oc w \<Longrightarrow> sleep loads nps n delay w = (b, w') \<Longrightarrow> reachable loads oc w'"
  by (erule sleep_cases) (simp_all only: reachable_exec reachable.step)

lemma clock_sleep:
  assumes "sleep loads nps n delay w = (b, w')"
  shows "clock w \<le> clock w'" and "b = Rested \<Longrightarrow> clock w + real delay \<le> clock w'"
  using assms clock_exec [of w loads "filter background (fst (nps n))"]
  by (auto elim!: sleep_cases [where loads = loads])

lemma reachable_main: "reachable loads oc (snd (snd (main loads oc sched nps)))"
proof -
  obtain res n w
    where r: "run_loop (run_forever loads sched) (sleep loads nps) 0 (init_world oc) = (res, n, w)"
    by (cases "run_loop (run_forever loads sched) (sleep loads nps) 0 (init_world oc)")
  have w: "reachable loads oc w"
    by (rule run_loop_invariant [where P = "reachable loads oc", OF _ _ reachable.init r])
       (auto intro: reachable_run_forever reachable_sleep)
  from reachable.step [OF w, of Interrupt] have "reachable loads oc (w\<lparr>client := cleanup (client w)\<rparr>)"
    by simp
  with w r show ?thesis
    by (cases res) (simp_all add: main_def run_def)
qed

text \<open>
  \<open>main\<close> against the loop over lists of delays: same result, same number of retries,
  and the clock has advanced by at least the delays slept.
\<close>

lemma main_sim:
  "run_rel (\<lambda>w ds. real (sum_list ds) \<le> clock w)
     (run (run_forever loads sched) (sleep loads nps) (init_world oc))
     (delays (\<lambda>i. snd (sched i)) (\<lambda>i. snd (nps i)))"
  unfolding run_def delays_def
proof (rule run_loop_sim)
  fix i d and w :: world and ds :: "nat list"
  assume le: "real (sum_list ds) \<le> clock w"
  obtain b w' where sl: "sleep loads nps i d w = (b, w')"
    by (cases "sleep loads nps i d w")
  from sl have "b = snd (nps i)"
    by (auto elim: sleep_cases)
  with le clock_sleep [OF sl]
  show "fst (sleep loads nps i d w) = fst (nap (\<lambda>i. snd (nps i)) i d ds) \<and>
        real (sum_list (snd (nap (\<lambda>i. snd (nps i)) i d ds))) \<le> clock (snd (sleep loads nps i d w))"
    by (cases b) (simp_all add: sl nap_def)
qed (auto simp: run_forever_def intro: order_trans [OF _ clock_exec])

lemma main_run:
  "fst (main loads oc sched nps) =
     fst (run (run_forever loads sched) (sleep loads nps) (init_world oc))"
  "fst (snd (main loads oc sched nps)) =
     fst (snd (run (run_forever loads sched) (sleep loads nps) (init_world oc)))"
  "clock (snd (snd (main loads oc sched nps))) =
     clock (snd (snd (run (run_forever loads sched) (sleep loads nps) (init_world oc))))"
  by (simp_all add: main_def split: prod.splits run_result.splits)

text \<open>
  C39. Everything the program does is a run of the engine, and it keeps the invariant
  of the engine to its end: the world in which \<open>main\<close> ends is the result of a list of
  events applied to the initial world, and the buffers, the wire and the threads are
  in it as \<open>engine_ok\<close> says, whatever the transport, the devices and the scheduler
  did and however the program ended.
\<close>

theorem main_keeps_invariant:
  "(\<exists>es. snd (snd (main loads oc sched nps)) = exec loads (init_world oc) es) \<and>
   engine_ok oc (snd (snd (main loads oc sched nps)))"
  using reachable_main [of loads oc sched nps] reachable_engine_ok [of loads oc]
  by (simp add: reachable_iff_run)

theorem main_keeps_invariant_witness:
  "engine_ok loopback_codec
     (snd (snd (main (\<lambda>s. None) loopback_codec (\<lambda>i. ([Open, Capture pcm0, Error], Raised))
       (\<lambda>i. ([Step 0 None, Capture pcm1], Rested)))))"
  using main_keeps_invariant [of "\<lambda>s. None" loopback_codec
      "\<lambda>i. ([Open, Capture pcm0, Error], Raised)" "\<lambda>i. ([Step 0 None, Capture pcm1], Rested)"]
  by simp

text \<open>
  C23. The program refines the schedule of delays: \<open>main\<close> ends with the result and the
  number of retries that the outcomes of the attempts and of the sleeps determine,
  whatever happens inside them (a connection that opened before it failed does not
  reset the count), and by then the clock has advanced by at least the sum of the
  delays that were slept to their end.
\<close>

theorem main_refines_delays:
  "fst (main loads oc sched nps) = fst (delays (\<lambda>i. snd (sched i)) (\<lambda>i. snd (nps i))) \<and>
   fst (snd (main loads oc sched nps)) =
     fst (snd (delays (\<lambda>i. snd (sched i)) (\<lambda>i. snd (nps i)))) \<and>
   real (sum_list (snd (snd (delays (\<lambda>i. snd (sched i)) (\<lambda>i. snd (nps i)))))) \<le>
     clock (snd (snd (main loads oc sched nps)))"
  using main_sim [of loads sched nps oc] by (simp add: run_rel_def main_run)

text \<open>
  Terminal failure: if every attempt raises and no sleep is disturbed, \<open>main\<close> gives up
  after five retries and at least 60 seconds, even if each attempt had opened the
  connection before it failed.
\<close>

lemma main_gives_up:
  assumes "\<forall>i. snd (sched i) = Raised" and "\<forall>i. snd (nps i) = Rested"
  shows "fst (main loads oc sched nps) = Exhausted \<and> fst (snd (main loads oc sched nps)) = 5 \<and>
         60 \<le> clock (snd (snd (main loads oc sched nps)))"
proof -
  from assms have "(\<lambda>i. snd (sched i)) = (\<lambda>i. Raised)" and "(\<lambda>i. snd (nps i)) = (\<lambda>i. Rested)"
    by auto
  moreover have "delays (\<lambda>i. Raised) (\<lambda>i. Rested) = (Exhausted, 5, [2, 4, 8, 16, 30])"
    by (simp add: delays_eq ending_def slept_def cut_short_def max_retries_def backoff_delay_def
        eval_nat_numeral upt_conv_Cons)
  ultimately show ?thesis
    using main_sim [of loads sched nps oc] by (simp add: run_rel_def main_run)
qed

section \<open>Start and end of the program\<close>

lemma program_Inr_iff:
  "program loads lib pa sched nps = Inr r \<longleftrightarrow>
     (\<exists>oc. OpusCodec_init lib = Inr oc \<and> AudioIO_init pa = Inr AudioIO_ready \<and>
           r = main loads oc sched nps)"
  by (auto simp: program_def AudioClient_init_def AudioClient_with_def init_websocket_def Let_def
      split: sum.splits prod.splits dest: AudioIO_init_Inr_iff [THEN iffD1])

lemma program_good:
  "program loads (good_lib oc) good_device sched nps = Inr (main loads oc sched nps)"
  by (simp add: program_def)

lemma main_Returned:
  assumes "snd (sched 0) = Returned"
  shows "main loads oc sched nps = (Finished, 0, exec loads (init_world oc) (fst (sched 0)))"
  using assms
  by (simp add: main_def run_def run_loop.simps [of _ _ 0] max_retries_def run_forever_def)

text \<open>
  C24. The program reaches its main loop exactly when all seven calls into the two
  libraries succeed: the creation of the encoder, its two settings, the creation of
  the decoder, the initialisation of the audio library and the opening of the two
  streams. It then runs \<open>main\<close> with the codec the library returned. In every other case
  the exception of the first failing call ends the program before any connection is
  attempted.
\<close>

theorem program_starts_iff:
  "program loads lib pa sched nps = Inr r \<longleftrightarrow>
     (\<exists>oc. Encoder lib SAMPLE_RATE CHANNELS = Inr (encoder oc) \<and> set_bitrate lib 24000 = None \<and>
           set_signal lib = None \<and> Decoder lib SAMPLE_RATE CHANNELS = Inr (decoder oc) \<and>
           PyAudio pa = None \<and> pa_open pa Input CHANNELS SAMPLE_RATE CHUNK = None \<and>
           pa_open pa Output CHANNELS SAMPLE_RATE CHUNK = None \<and> r = main loads oc sched nps)"
  by (simp add: program_Inr_iff OpusCodec_init_Inr_iff AudioIO_init_Inr_iff)

text \<open>
  C36. A failure to open the output stream leaves the microphone running. When the
  codec and the input stream were created and the output stream cannot be opened, the
  program ends with that error; the input stream is open and running, the audio
  library is not terminated and \<^verbatim>\<open>release\<close> has not been called.
\<close>

theorem output_failure_leaves_input_running:
  assumes "OpusCodec_init lib = Inr oc" and "PyAudio pa = None"
    and "pa_open pa Input CHANNELS SAMPLE_RATE CHUNK = None"
    and "pa_open pa Output CHANNELS SAMPLE_RATE CHUNK = Some e"
  shows "\<exists>a. program loads lib pa sched nps = Inl (DeviceFailed e, Some a) \<and>
             input_stream a = Running \<and> output_stream a = Closed \<and>
             \<not> pa_terminated a \<and> release_calls a = 0"
  using assms
  by (simp add: program_def AudioClient_init_def AudioIO_init_def init_streams_def audio_fresh_def)

theorem output_failure_leaves_input_running_witness:
  "OpusCodec_init (good_lib loopback_codec) = Inr loopback_codec \<and>
   (\<exists>a. program (\<lambda>s. None) (good_lib loopback_codec)
           \<lparr>PyAudio = None, pa_open = (\<lambda>d ch rate n. if d = Output then Some OSError else None)\<rparr>
           (\<lambda>i. ([], Returned)) (\<lambda>i. ([], Rested)) = Inl (DeviceFailed OSError, Some a) \<and>
        input_stream a = Running \<and> release_calls a = 0)"
  using output_failure_leaves_input_running
    [of "good_lib loopback_codec" loopback_codec
        "\<lparr>PyAudio = None, pa_open = (\<lambda>d ch rate n. if d = Output then Some OSError else None)\<rparr>"
        OSError "\<lambda>s. None" "\<lambda>i. ([], Returned)" "\<lambda>i. ([], Rested)"]
  by auto

text \<open>
  C30. An error that the transport reports through the error callback is not retried.
  If the first call of \<^verbatim>\<open>run_forever\<close> ends with the error callback and then returns,
  the loop of \<^verbatim>\<open>run\<close> is left by \<^verbatim>\<open>break\<close>: the program finishes without a retry
  and without a delay, the flag is cleared, and the audio device has been released
  only as often as before the error. Reconnection happens only when \<^verbatim>\<open>run_forever\<close>
  raises.
\<close>

theorem reported_error_ends_program:
  assumes "sched 0 = (es @ [Error], Returned)"
  shows "\<exists>w. main loads oc sched nps = (Finished, 0, w) \<and> \<not> is_running (client w) \<and>
             clock w = clock (exec loads (init_world oc) es) \<and>
             release_calls (audio (client w)) =
               release_calls (audio (client (exec loads (init_world oc) es)))"
  using assms main_Returned [of sched loads oc nps]
  by (simp add: exec_append)

theorem reported_error_ends_program_witness:
  "(\<lambda>i. ([Open] @ [Error], Returned)) 0 = ([Open] @ [Error], Returned) \<and>
   (\<exists>w. main (\<lambda>s. None) loopback_codec (\<lambda>i. ([Open] @ [Error], Returned)) (\<lambda>i. ([], Rested)) =
          (Finished, 0, w) \<and>
        \<not> is_running (client w) \<and> release_calls (audio (client w)) = 0)"
  using reported_error_ends_program [of "\<lambda>i. ([Open] @ [Error], Returned)" "[Open]" "\<lambda>s. None"
      loopback_codec "\<lambda>i. ([], Rested)"]
  by (auto simp: on_open_def)

text \<open>
  C38. An interrupt during the delay ends the program with the retry counted. If the
  first attempt raises and \<^verbatim>\<open>KeyboardInterrupt\<close> arrives while the main thread sleeps
  before the second, \<^verbatim>\<open>run\<close> is left from inside its \<^verbatim>\<open>except\<close> clause: the program
  ends aborted with one retry, after the events of the attempt, the events that
  happened during the sleep and the cleanup, and no second attempt is made. The
  design's machine is in \<open>Failed\<close> then and has no move for a stop.
\<close>

theorem interrupted_sleep_aborts:
  assumes "sched 0 = (es, Raised)" and "nps 1 = (bs, Disturbed)"
  shows "main loads oc sched nps =
           (Aborted, 1, exec loads (init_world oc) (es @ filter background bs @ [Interrupt])) \<and>
         fire_all machine0 [Connect, Failure] = Some (stranded 1) \<and>
         fire (stranded 1) Stop = None"
proof -
  from assms
  have "run_loop (run_forever loads sched) (sleep loads nps) 0 (init_world oc) =
          (Aborted, 1, exec loads (init_world oc) (es @ filter background bs))"
    by (simp add: run_loop_disturbed [where w' = "exec loads (init_world oc) es"
          and w'' = "exec loads (init_world oc) (es @ filter background bs)"]
        max_retries_def run_forever_def sleep_def exec_append)
  moreover have "fire_all machine0 [Connect, Failure] = Some (stranded 1)"
    using fire_failure [of 0] by (simp add: max_retries_def del: fire_all.simps)
  ultimately show ?thesis
    by (simp add: main_def run_def exec_append stranded_no_stop del: fire_all.simps fire.simps)
qed

theorem interrupted_sleep_aborts_witness:
  "main (\<lambda>s. None) loopback_codec (\<lambda>i. ([Open, Error], Raised))
     (\<lambda>i. ([Tick 1, Open, Step 0 None], Disturbed)) =
     (Aborted, 1, exec (\<lambda>s. None) (init_world loopback_codec)
        [Open, Error, Tick 1, Step 0 None, Interrupt]) \<and>
   clock (exec (\<lambda>s. None) (init_world loopback_codec)
     [Open, Error, Tick 1, Step 0 None, Interrupt]) = 1"
  using interrupted_sleep_aborts [of "\<lambda>i. ([Open, Error], Raised)" "[Open, Error]"
      "\<lambda>i. ([Tick 1, Open, Step 0 None], Disturbed)" "[Tick 1, Open, Step 0 None]"
      "\<lambda>s. None" loopback_codec]
  by simp

end
